theory Spec2Isabelle
  imports Main "HOL-Library.Signed_Division"
begin

section \<open>Weighted graph\<close>

text \<open>
  Modelled from the spec: the graph class (\<open>graph_t\<close>, one of the adjacency-list graphs
  included from \<open>crab/domains/graphs/\<close>) is used by the split-octagon domain but its file
  is not part of the sources. The spec describes it as a vector indexed by dense vertex
  identifiers, with per-vertex edge tables, where removal frees the identifier and pushes
  it onto a free list from which \<open>new_vertex\<close> takes identifiers again.
  Weights are \<open>Wt = long\<close>; the spec assumes infinite-precision integers in the octagon,
  and the operations modelled below only compare and halve weights, so \<open>int\<close> is used.
\<close>

type_synonym vert_id = nat
type_synonym Wt = int

record wgraph =
  g_edge :: "vert_id \<Rightarrow> vert_id \<Rightarrow> Wt option"
  g_is_free :: "bool list"
  g_free_id :: "vert_id list"

definition empty_graph :: wgraph where
  "empty_graph = \<lparr> g_edge = (\<lambda>u v. None), g_is_free = [], g_free_id = [] \<rparr>"

definition new_vertex :: "wgraph \<Rightarrow> vert_id \<times> wgraph" where
  "new_vertex g =
     (if g_free_id g \<noteq> []
      then (let v = last (g_free_id g)
            in (v, g\<lparr> g_free_id := butlast (g_free_id g),
                      g_is_free := (g_is_free g)[v := False] \<rparr>))
      else (length (g_is_free g), g\<lparr> g_is_free := g_is_free g @ [False] \<rparr>))"

definition g_lookup :: "wgraph \<Rightarrow> vert_id \<Rightarrow> vert_id \<Rightarrow> Wt option" where
  "g_lookup g u v = g_edge g u v"

definition g_elem :: "wgraph \<Rightarrow> vert_id \<Rightarrow> vert_id \<Rightarrow> bool" where
  "g_elem g u v = (g_edge g u v \<noteq> None)"

definition g_edge_val :: "wgraph \<Rightarrow> vert_id \<Rightarrow> vert_id \<Rightarrow> Wt" where
  "g_edge_val g u v = the (g_edge g u v)"

definition g_add_edge :: "wgraph \<Rightarrow> vert_id \<Rightarrow> Wt \<Rightarrow> vert_id \<Rightarrow> wgraph" where
  "g_add_edge g u w v = g\<lparr> g_edge := (g_edge g)(u := (g_edge g u)(v \<mapsto> w)) \<rparr>"

definition g_verts :: "wgraph \<Rightarrow> vert_id list" where
  "g_verts g = filter (\<lambda>v. \<not> g_is_free g ! v) [0 ..< length (g_is_free g)]"

definition g_succs :: "wgraph \<Rightarrow> vert_id \<Rightarrow> vert_id list" where
  "g_succs g u = filter (\<lambda>v. g_edge g u v \<noteq> None) [0 ..< length (g_is_free g)]"

text \<open>The two weight combiners of the domain, \<open>Wt_max\<close> and \<open>Wt_min\<close>.\<close>

record wt_op =
  op_apply :: "Wt \<Rightarrow> Wt \<Rightarrow> Wt"
  default_is_absorbing :: bool

definition Wt_max :: wt_op where
  "Wt_max = \<lparr> op_apply = max, default_is_absorbing = True \<rparr>"

definition Wt_min :: wt_op where
  "Wt_min = \<lparr> op_apply = min, default_is_absorbing = False \<rparr>"

text \<open>
  Modelled from the spec: \<open>update_edge(u, w, v, op)\<close> writes \<open>op(existing, w)\<close>; when the
  edge is absent it is added unless the combiner's default is absorbing.
\<close>

definition g_update_edge :: "wgraph \<Rightarrow> vert_id \<Rightarrow> Wt \<Rightarrow> vert_id \<Rightarrow> wt_op \<Rightarrow> wgraph" where
  "g_update_edge g u w v opr =
     (case g_edge g u v of
        Some old \<Rightarrow> g_add_edge g u (op_apply opr old w) v
      | None \<Rightarrow> if default_is_absorbing opr then g else g_add_edge g u w v)"

section \<open>Split-octagon state\<close>

text \<open>
  The fields of \<open>SplitOCT_\<close>. \<open>vert_map\<close> is a \<open>flat_map\<close>, a vector of bindings sorted by
  variable; \<open>rev_map\<close> and \<open>potential\<close> are vectors indexed by vertex.
\<close>

record 'v soct =
  vert_map :: "('v \<times> vert_id \<times> vert_id) list"
  rev_map :: "'v option list"
  graph :: wgraph
  potential :: "Wt list"
  unstable :: "vert_id set"
  is_bottom_flag :: bool

fun vmap_insert :: "'v::linorder \<Rightarrow> vert_id \<times> vert_id \<Rightarrow> ('v \<times> vert_id \<times> vert_id) list
    \<Rightarrow> ('v \<times> vert_id \<times> vert_id) list" where
  "vmap_insert k p [] = [(k, p)]"
| "vmap_insert k p ((k', p') # m) =
     (if k < k' then (k, p) # (k', p') # m
      else if k = k' then (k', p') # m
      else (k', p') # vmap_insert k p m)"

definition vmap_find :: "('v \<times> vert_id \<times> vert_id) list \<Rightarrow> 'v \<Rightarrow> (vert_id \<times> vert_id) option" where
  "vmap_find m k = map_of m k"

definition soct_top :: "'v soct" where
  "soct_top = \<lparr> vert_map = [], rev_map = [], graph = empty_graph, potential = [],
                unstable = {}, is_bottom_flag = False \<rparr>"

definition soct_bottom :: "'v soct" where
  "soct_bottom = \<lparr> vert_map = [], rev_map = [], graph = empty_graph, potential = [],
                   unstable = {}, is_bottom_flag = True \<rparr>"

definition set_to_bottom :: "'v soct \<Rightarrow> 'v soct" where
  "set_to_bottom s = s\<lparr> vert_map := [], rev_map := [], graph := empty_graph, potential := [],
                        unstable := {}, is_bottom_flag := True \<rparr>"

definition is_bottom :: "'v soct \<Rightarrow> bool" where
  "is_bottom s = is_bottom_flag s"

text \<open>
  \<open>is_top\<close> asks the graph whether it \<open>is_empty()\<close>. The graph class is not part of the
  sources and the spec lists \<open>is_empty()\<close> without saying what it tests: it is the
  parameter \<open>is_empty\<close>.
\<close>

definition is_top :: "(wgraph \<Rightarrow> bool) \<Rightarrow> 'v soct \<Rightarrow> bool" where
  "is_top is_empty s = (if is_bottom_flag s then False else is_empty (graph s))"

subsection \<open>get_vert\<close>

text \<open>
  The swap block of \<open>get_vert\<close>, statement by statement:
  \<open>tmp = vert_pos; vert_pos = vert_neg; vert_neg = vert_pos;\<close>
\<close>

definition swap_block :: "vert_id \<times> vert_id \<Rightarrow> vert_id \<times> vert_id" where
  "swap_block pn =
     (let vert_pos = fst pn; vert_neg = snd pn
      in if vert_pos > vert_neg
         then (let tmp = vert_pos;
                   vert_pos = vert_neg;
                   vert_neg = vert_pos
               in (vert_pos, vert_neg))
         else (vert_pos, vert_neg))"

text \<open>
  \<open>if (v < rev_map.size()) { potential[v] = 0; rev_map[v] = x; } else { push_back; push_back; }\<close>
\<close>

definition install_vert :: "'v \<Rightarrow> vert_id \<Rightarrow> 'v soct \<Rightarrow> 'v soct" where
  "install_vert x v s =
     (if v < length (rev_map s)
      then s\<lparr> potential := (potential s)[v := 0], rev_map := (rev_map s)[v := Some x] \<rparr>
      else s\<lparr> potential := potential s @ [0], rev_map := rev_map s @ [Some x] \<rparr>)"

definition get_vert :: "'v::linorder \<Rightarrow> 'v soct \<Rightarrow> vert_id \<times> 'v soct" where
  "get_vert x s =
     (case vmap_find (vert_map s) x of
        Some p \<Rightarrow> (fst p, s)
      | None \<Rightarrow>
          (let (vp0, g1) = new_vertex (graph s);
               (vn0, g2) = new_vertex g1;
               (vert_pos, vert_neg) = swap_block (vp0, vn0);
               s1 = s\<lparr> graph := g2,
                       vert_map := vmap_insert x (vert_pos, vert_neg) (vert_map s) \<rparr>;
               s2 = install_vert x vert_pos s1;
               s3 = install_vert x vert_neg s2
           in (vert_pos, s3)))"

section \<open>Bounds and intervals\<close>

text \<open>
  Modelled from the spec: the number, bound and interval classes (\<open>intervals.hpp\<close>) are
  not part of the sources. A bound is a number extended with the two infinities; an
  interval is a pair of bounds \<open>[lb, ub]\<close> with \<open>lb \<le> ub\<close>, and bottom is the empty
  interval. \<open>Number\<close> is the integer number type, whose division truncates towards zero.
\<close>

datatype bound = MInf | Fin int | PInf

fun bound_le :: "bound \<Rightarrow> bound \<Rightarrow> bool" where
  "bound_le MInf _ = True"
| "bound_le _ PInf = True"
| "bound_le (Fin a) (Fin b) = (a \<le> b)"
| "bound_le _ _ = False"

datatype interval = Bot | Range bound bound

definition mk_interval :: "bound \<Rightarrow> bound \<Rightarrow> interval" where
  "mk_interval lb ub = (if bound_le lb ub then Range lb ub else Bot)"

definition interval_top :: interval where
  "interval_top = Range MInf PInf"

definition interval_bottom :: interval where
  "interval_bottom = Bot"

definition num_div :: "int \<Rightarrow> int \<Rightarrow> int" where
  "num_div a b = a sdiv b"

subsection \<open>Interval arithmetic\<close>

text \<open>
  Modelled from the spec: intervals support arithmetic; the operations below are the
  ones the array domains use (constant, sum, product, meet, singleton test).
\<close>

fun bound_add :: "bound \<Rightarrow> bound \<Rightarrow> bound" where
  "bound_add (Fin a) (Fin b) = Fin (a + b)"
| "bound_add MInf _ = MInf"
| "bound_add _ MInf = MInf"
| "bound_add PInf _ = PInf"
| "bound_add _ PInf = PInf"

fun bound_neg :: "bound \<Rightarrow> bound" where
  "bound_neg MInf = PInf"
| "bound_neg PInf = MInf"
| "bound_neg (Fin a) = Fin (- a)"

fun bound_scale :: "int \<Rightarrow> bound \<Rightarrow> bound" where
  "bound_scale k (Fin a) = Fin (k * a)"
| "bound_scale k b = (if k = 0 then Fin 0 else if k > 0 then b else bound_neg b)"

fun bound_mul :: "bound \<Rightarrow> bound \<Rightarrow> bound" where
  "bound_mul (Fin a) b = bound_scale a b"
| "bound_mul a (Fin b) = bound_scale b a"
| "bound_mul a b = (if a = b then PInf else MInf)"

definition bound_min :: "bound \<Rightarrow> bound \<Rightarrow> bound" where
  "bound_min a b = (if bound_le a b then a else b)"

definition bound_max :: "bound \<Rightarrow> bound \<Rightarrow> bound" where
  "bound_max a b = (if bound_le a b then b else a)"

definition interval_of_number :: "int \<Rightarrow> interval" where
  "interval_of_number k = Range (Fin k) (Fin k)"

fun interval_add :: "interval \<Rightarrow> interval \<Rightarrow> interval" where
  "interval_add (Range l1 u1) (Range l2 u2) = Range (bound_add l1 l2) (bound_add u1 u2)"
| "interval_add _ _ = Bot"

fun interval_mul :: "interval \<Rightarrow> interval \<Rightarrow> interval" where
  "interval_mul (Range l1 u1) (Range l2 u2) =
     (let ll = bound_mul l1 l2; lu = bound_mul l1 u2; ul = bound_mul u1 l2; uu = bound_mul u1 u2
      in Range (bound_min (bound_min ll lu) (bound_min ul uu))
               (bound_max (bound_max ll lu) (bound_max ul uu)))"
| "interval_mul _ _ = Bot"

fun interval_meet :: "interval \<Rightarrow> interval \<Rightarrow> interval" where
  "interval_meet (Range l1 u1) (Range l2 u2) = mk_interval (bound_max l1 l2) (bound_min u1 u2)"
| "interval_meet _ _ = Bot"

fun interval_join :: "interval \<Rightarrow> interval \<Rightarrow> interval" where
  "interval_join (Range l1 u1) (Range l2 u2) = Range (bound_min l1 l2) (bound_max u1 u2)"
| "interval_join Bot i = i"
| "interval_join i Bot = i"

fun interval_leq :: "interval \<Rightarrow> interval \<Rightarrow> bool" where
  "interval_leq Bot _ = True"
| "interval_leq (Range l1 u1) Bot = False"
| "interval_leq (Range l1 u1) (Range l2 u2) = (bound_le l2 l1 \<and> bound_le u1 u2)"

definition interval_is_bottom :: "interval \<Rightarrow> bool" where
  "interval_is_bottom i = (i = Bot)"

fun interval_singleton :: "interval \<Rightarrow> int option" where
  "interval_singleton (Range (Fin a) (Fin b)) = (if a = b then Some a else None)"
| "interval_singleton _ = None"

section \<open>Graph operations and parameters\<close>

text \<open>
  The domain is a template over the algorithms of \<open>GraphOps\<close> (\<open>graph_ops.hpp\<close>), which
  are not part of the sources: they are parameters of the model. A permuted view
  \<open>GrPerm(perm, g)\<close> is the pair of the permutation vector and the graph, with \<open>-1\<close> for
  an absent vertex; a split view \<open>SplitGraph(g)\<close> is passed as the graph it wraps.
  Operations that write through a reference return the new value.
\<close>

type_synonym edge_vector = "((vert_id \<times> vert_id) \<times> Wt) list"
type_synonym gr_perm = "int list \<times> wgraph"

record gr_ops =
  go_widen :: "gr_perm \<Rightarrow> gr_perm \<Rightarrow> wgraph \<times> vert_id list"
  go_meet :: "gr_perm \<Rightarrow> gr_perm \<Rightarrow> wgraph \<times> bool"
  go_select_potentials :: "wgraph \<Rightarrow> Wt list \<Rightarrow> bool \<times> Wt list"
  go_close_after_meet :: "wgraph \<Rightarrow> Wt list \<Rightarrow> gr_perm \<Rightarrow> gr_perm \<Rightarrow> edge_vector"
  go_close_johnson :: "wgraph \<Rightarrow> Wt list \<Rightarrow> edge_vector"
  go_close_after_widen :: "wgraph \<Rightarrow> Wt list \<Rightarrow> vert_id set \<Rightarrow> edge_vector"
  go_apply_delta :: "wgraph \<Rightarrow> edge_vector \<Rightarrow> bool \<Rightarrow> wgraph"
  go_repair_potential :: "wgraph \<Rightarrow> Wt list \<Rightarrow> vert_id \<Rightarrow> vert_id \<Rightarrow> bool \<times> Wt list"

text \<open>The policy flags of \<open>Params\<close>.\<close>

record soct_params =
  chrome_dijkstra :: bool
  widen_restabilize :: bool
  special_assign :: bool

definition DefaultParams :: soct_params where
  "DefaultParams = \<lparr> chrome_dijkstra = True, widen_restabilize = True, special_assign = True \<rparr>"

definition SimpleParams :: soct_params where
  "SimpleParams = \<lparr> chrome_dijkstra = False, widen_restabilize = False, special_assign = False \<rparr>"

subsection \<open>normalize\<close>

definition repair_potential :: "gr_ops \<Rightarrow> vert_id \<Rightarrow> vert_id \<Rightarrow> 'v soct \<Rightarrow> bool \<times> 'v soct" where
  "repair_potential G src dest s =
     (let (ok, pot) = go_repair_potential G (graph s) (potential s) src dest
      in (ok, s\<lparr> potential := pot \<rparr>))"

text \<open>
  The four parity branches of the loop body choose the mirror edge:
  \<open>(w+1, v+1)\<close>, \<open>(w+1, v-1)\<close>, \<open>(w-1, v+1)\<close> or \<open>(w-1, v-1)\<close>.
\<close>

definition mirror_edge :: "vert_id \<Rightarrow> vert_id \<Rightarrow> vert_id \<times> vert_id" where
  "mirror_edge v w =
     (if v mod 2 = 0 \<and> w mod 2 = 0 then (w + 1, v + 1)
      else if v mod 2 \<noteq> 0 \<and> w mod 2 = 0 then (w + 1, v - 1)
      else if v mod 2 = 0 \<and> w mod 2 \<noteq> 0 then (w - 1, v + 1)
      else (w - 1, v - 1))"

definition normalize_step :: "gr_ops \<Rightarrow> vert_id \<Rightarrow> vert_id \<Rightarrow> 'v soct \<Rightarrow> 'v soct" where
  "normalize_step G v w s =
     (if v div 2 = w div 2 then s
      else
        (let current = g_edge_val (graph s) v w;
             (ms, md) = mirror_edge v w
         in case g_lookup (graph s) ms md of
              Some mirror \<Rightarrow>
                (let m = (if mirror < current then mirror else current);
                     g1 = g_update_edge (graph s) ms m md Wt_min;
                     g2 = g_update_edge g1 v m w Wt_min
                 in s\<lparr> graph := g2 \<rparr>)
            | None \<Rightarrow>
                (let s1 = s\<lparr> graph := g_add_edge (graph s) ms current md \<rparr>;
                     (ok, s2) = repair_potential G ms md s1
                 in if \<not> ok then set_to_bottom s2 else s2)))"

text \<open>
  The two nested loops \<open>for v : graph.verts()\<close>, \<open>for w : graph.succs(v)\<close>. The successors
  of \<open>v\<close> are read when \<open>v\<close> is reached. \<open>set_to_bottom\<close> clears the graph, after which it
  has no vertex and no edge left to visit: the loops end there.
\<close>

fun normalize_succs :: "gr_ops \<Rightarrow> vert_id \<Rightarrow> vert_id list \<Rightarrow> 'v soct \<Rightarrow> 'v soct" where
  "normalize_succs G v [] s = s"
| "normalize_succs G v (w # ws) s =
     (let s' = normalize_step G v w s
      in if is_bottom_flag s' then s' else normalize_succs G v ws s')"

fun normalize_verts :: "gr_ops \<Rightarrow> vert_id list \<Rightarrow> 'v soct \<Rightarrow> 'v soct" where
  "normalize_verts G [] s = s"
| "normalize_verts G (v # vs) s =
     (let s' = normalize_succs G v (g_succs (graph s) v) s
      in if is_bottom_flag s' then s' else normalize_verts G vs s')"

definition normalize :: "gr_ops \<Rightarrow> soct_params \<Rightarrow> 'v soct \<Rightarrow> 'v soct" where
  "normalize G P s =
     (let s1 = normalize_verts G (g_verts (graph s)) s
      in if unstable s1 = {} then s1
         else
           (let delta = (if widen_restabilize P
                         then go_close_after_widen G (graph s1) (potential s1) (unstable s1)
                         else go_close_johnson G (graph s1) (potential s1));
                g' = go_apply_delta G (graph s1) delta True
            in s1\<lparr> graph := g', unstable := {} \<rparr>))"

subsection \<open>Widening\<close>

text \<open>
  The renaming loop of the widening: one iteration for a binding \<open>p\<close> of the left
  operand's \<open>vert_map\<close>. The accumulator holds \<open>out_vmap\<close>, \<open>out_revmap\<close>, \<open>widen_pot\<close>,
  \<open>perm_x\<close> and \<open>perm_y\<close>.
\<close>

type_synonym 'v renaming =
  "('v \<times> vert_id \<times> vert_id) list \<times> 'v option list \<times> Wt list \<times> int list \<times> int list"

definition widen_rename_step :: "'v::linorder soct \<Rightarrow> 'v soct \<Rightarrow> 'v renaming
    \<Rightarrow> ('v \<times> vert_id \<times> vert_id) \<Rightarrow> 'v renaming" where
  "widen_rename_step s o' acc p =
     (case acc of (out_vmap, out_revmap, widen_pot, perm_x, perm_y) \<Rightarrow>
        (case vmap_find (vert_map o') (fst p) of
           Some q \<Rightarrow>
             (vmap_insert (fst p) (length perm_x, length perm_x + 1) out_vmap,
              out_revmap @ [Some (fst p), Some (fst p)],
              widen_pot @ [potential s ! fst (snd p), potential s ! snd (snd p)],
              perm_x @ [int (fst (snd p)), int (snd (snd p))],
              perm_y @ [int (fst q), int (snd q)])
         | None \<Rightarrow> acc))"

definition widening :: "gr_ops \<Rightarrow> soct_params \<Rightarrow> 'v::linorder soct \<Rightarrow> 'v soct
    \<Rightarrow> 'v soct \<times> 'v soct" where
  "widening G P s o1 =
     (if is_bottom s then (o1, o1)
      else if is_bottom o1 then (s, o1)
      else
        (let o' = normalize G P o1;
             (out_vmap, out_revmap, widen_pot, perm_x, perm_y) =
                foldl (widen_rename_step s o') ([], [], [], [], []) (vert_map s);
             gx = (perm_x, graph s);
             gy = (perm_y, graph o');
             (widen_g, destabilized) = go_widen G gx gy;
             widen_unstable = unstable s \<union> set destabilized
         in (\<lparr> vert_map = out_vmap, rev_map = out_revmap, graph = widen_g,
               potential = widen_pot, unstable = widen_unstable, is_bottom_flag = False \<rparr>,
             o')))"

definition widening_thresholds :: "gr_ops \<Rightarrow> soct_params \<Rightarrow> 'v::linorder soct \<Rightarrow> 'v soct \<Rightarrow> 'ts
    \<Rightarrow> 'v soct \<times> 'v soct" where
  "widening_thresholds G P s o1 ts = widening G P s o1"

subsection \<open>Interval query\<close>

definition get_interval :: "('v \<times> vert_id \<times> vert_id) list \<Rightarrow> wgraph \<Rightarrow> 'v \<Rightarrow> interval" where
  "get_interval m r x =
     (case vmap_find m x of
        None \<Rightarrow> interval_top
      | Some p \<Rightarrow>
          (let v = fst p
           in mk_interval
                (if g_elem r v (v + 1) then Fin (num_div (- g_edge_val r v (v + 1)) 2) else MInf)
                (if g_elem r (v + 1) v then Fin (num_div (g_edge_val r (v + 1) v) 2) else PInf)))"

definition soct_get :: "'v soct \<Rightarrow> 'v \<Rightarrow> interval" where
  "soct_get s x =
     (if is_bottom s then interval_bottom
      else if is_bottom s then interval_bottom
      else get_interval (vert_map s) (graph s) x)"

subsection \<open>Meet\<close>

text \<open>
  The two renaming loops of the meet. The accumulator holds \<open>meet_verts\<close>, \<open>meet_rev\<close>,
  \<open>meet_pi\<close>, \<open>perm_x\<close> and \<open>perm_y\<close>. The first loop runs over the left operand's
  \<open>vert_map\<close>, the second over the right operand's.
\<close>

definition meet_left_step :: "'v::linorder soct \<Rightarrow> 'v renaming
    \<Rightarrow> ('v \<times> vert_id \<times> vert_id) \<Rightarrow> 'v renaming" where
  "meet_left_step s acc p =
     (case acc of (meet_verts, meet_rev, meet_pi, perm_x, perm_y) \<Rightarrow>
        (let vv = length perm_x
         in (vmap_insert (fst p) (vv, vv + 1) meet_verts,
             meet_rev @ [Some (fst p), Some (fst p)],
             meet_pi @ [potential s ! fst (snd p), potential s ! snd (snd p)],
             perm_x @ [int (fst (snd p)), int (snd (snd p))],
             perm_y @ [- 1, - 1])))"

definition meet_right_step :: "'v::linorder soct \<Rightarrow> 'v renaming
    \<Rightarrow> ('v \<times> vert_id \<times> vert_id) \<Rightarrow> 'v renaming" where
  "meet_right_step o1 acc p =
     (case acc of (meet_verts, meet_rev, meet_pi, perm_x, perm_y) \<Rightarrow>
        (case vmap_find meet_verts (fst p) of
           None \<Rightarrow>
             (let vv = length perm_y
              in (vmap_insert (fst p) (vv, vv + 1) meet_verts,
                  meet_rev @ [Some (fst p), Some (fst p)],
                  meet_pi @ [potential o1 ! fst (snd p), potential o1 ! snd (snd p)],
                  perm_x @ [- 1, - 1],
                  perm_y @ [int (fst (snd p)), int (snd (snd p))]))
         | Some q \<Rightarrow>
             (meet_verts, meet_rev, meet_pi, perm_x,
              (perm_y[fst q := int (fst (snd p))])[snd q := int (snd (snd p))])))"

definition meet_renaming :: "'v::linorder soct \<Rightarrow> 'v soct \<Rightarrow> 'v renaming" where
  "meet_renaming s o1 =
     foldl (meet_right_step o1)
       (foldl (meet_left_step s) ([], [], [], [], []) (vert_map s))
       (vert_map o1)"

text \<open>
  The loop under \<open>CLOSE_BOUNDS_INLINE\<close> that follows \<open>apply_delta\<close> in the meet; both of
  its branches are guarded by \<open>e.first.first % 2 == 2\<close>.
\<close>

definition meet_bounds_step :: "wgraph \<Rightarrow> ((vert_id \<times> vert_id) \<times> Wt) \<Rightarrow> wgraph" where
  "meet_bounds_step g e =
     (let ff = fst (fst e); fs = snd (fst e); ew = snd e
      in if ff mod 2 = 2 then
           (let g1 = (if g_elem g (ff + 1) ff
                      then g_update_edge g (ff + 1) (g_edge_val g (ff + 1) ff + 2 * ew) fs Wt_min
                      else g)
            in if g_elem g1 fs (ff + 1)
               then g_update_edge g1 ff (g_edge_val g1 fs (ff + 1) + 2 * ew) (ff + 1) Wt_min
               else g1)
         else if ff mod 2 = 2 then
           (let g1 = (if g_elem g ff (ff + 1)
                      then g_update_edge g ff (g_edge_val g ff (ff + 1) + 2 * ew) fs Wt_min
                      else g)
            in if g_elem g1 fs (ff + 1)
               then g_update_edge g1 (ff + 1) (g_edge_val g1 (fs + 1) ff + 2 * ew) ff Wt_min
               else g1)
         else g)"

text \<open>
  \<open>operator&\<close>. Both operands are normalized in place, so the result comes with the two
  updated operands.
\<close>

definition meet :: "gr_ops \<Rightarrow> (wgraph \<Rightarrow> bool) \<Rightarrow> soct_params \<Rightarrow> 'v::linorder soct \<Rightarrow> 'v soct
    \<Rightarrow> 'v soct \<times> 'v soct \<times> 'v soct" where
  "meet G is_empty P s o1 =
     (if is_bottom s \<or> is_bottom o1 then (soct_bottom, s, o1)
      else if is_top is_empty s then (o1, s, o1)
      else if is_top is_empty o1 then (s, s, o1)
      else
        (let s' = normalize G P s;
             o' = normalize G P o1;
             (meet_verts, meet_rev, meet_pi, perm_x, perm_y) = meet_renaming s' o';
             gx = (perm_x, graph s');
             gy = (perm_y, graph o');
             (meet_g, is_closed) = go_meet G gx gy;
             (feasible, meet_pi') = go_select_potentials G meet_g meet_pi
         in if \<not> feasible then (soct_bottom, s', o')
            else
              (let meet_g' =
                     (if \<not> is_closed
                      then (let delta = (if chrome_dijkstra P
                                         then go_close_after_meet G meet_g meet_pi' gx gy
                                         else go_close_johnson G meet_g meet_pi');
                                g1 = go_apply_delta G meet_g delta True
                            in foldl meet_bounds_step g1 delta)
                      else meet_g)
               in (\<lparr> vert_map = meet_verts, rev_map = meet_rev, graph = meet_g',
                     potential = meet_pi', unstable = {}, is_bottom_flag = False \<rparr>,
                   s', o'))))"

subsection \<open>Forgetting and setting a variable\<close>

text \<open>
  Modelled from the spec: \<open>set_edge\<close> writes the weight of an edge, adding the edge when it
  is absent; \<open>forget(v)\<close> removes all edges incident to \<open>v\<close> and frees the vertex.
\<close>

definition g_set_edge :: "wgraph \<Rightarrow> vert_id \<Rightarrow> Wt \<Rightarrow> vert_id \<Rightarrow> wgraph" where
  "g_set_edge g u w v = g\<lparr> g_edge := (g_edge g)(u := (g_edge g u)(v \<mapsto> w)) \<rparr>"

definition g_forget :: "wgraph \<Rightarrow> vert_id \<Rightarrow> wgraph" where
  "g_forget g v =
     (if v < length (g_is_free g) \<and> g_is_free g ! v then g
      else g\<lparr> g_edge := (\<lambda>a b. if a = v \<or> b = v then None else g_edge g a b),
              g_is_free := (g_is_free g)[v := True],
              g_free_id := g_free_id g @ [v] \<rparr>)"

text \<open>\<open>operator-=\<close> (forget a variable) and \<open>set\<close> (force an interval).\<close>

definition vmap_erase :: "'v \<Rightarrow> ('v \<times> vert_id \<times> vert_id) list \<Rightarrow> ('v \<times> vert_id \<times> vert_id) list" where
  "vmap_erase k m = filter (\<lambda>b. fst b \<noteq> k) m"

definition soct_forget :: "gr_ops \<Rightarrow> soct_params \<Rightarrow> 'v::linorder \<Rightarrow> 'v soct \<Rightarrow> 'v soct" where
  "soct_forget G P x s =
     (if is_bottom s then s
      else
        (let s1 = normalize G P s
         in case vmap_find (vert_map s1) x of
              None \<Rightarrow> s1
            | Some p \<Rightarrow>
                s1\<lparr> graph := g_forget (g_forget (graph s1) (fst p)) (snd p),
                    rev_map := ((rev_map s1)[fst p := None])[snd p := None],
                    vert_map := vmap_erase x (vert_map s1) \<rparr>))"

fun interval_lb :: "interval \<Rightarrow> bound" where
  "interval_lb Bot = Fin 0"
| "interval_lb (Range l u) = l"

fun interval_ub :: "interval \<Rightarrow> bound" where
  "interval_ub Bot = Fin (- 1)"
| "interval_ub (Range l u) = u"

definition interval_is_top :: "interval \<Rightarrow> bool" where
  "interval_is_top i = (i = Range MInf PInf)"

definition set_ub :: "vert_id \<Rightarrow> bound \<Rightarrow> 'v soct \<Rightarrow> 'v soct" where
  "set_ub v b s =
     (case b of
        Fin ub \<Rightarrow> s\<lparr> potential := ((potential s)[v := ub])[v + 1 := - ub],
                     graph := g_set_edge (graph s) (v + 1) (2 * ub) v \<rparr>
      | _ \<Rightarrow> s)"

definition set_lb :: "vert_id \<Rightarrow> bound \<Rightarrow> 'v soct \<Rightarrow> 'v soct" where
  "set_lb v b s =
     (case b of
        Fin lb \<Rightarrow> s\<lparr> potential := ((potential s)[v := lb])[v + 1 := - lb],
                     graph := g_set_edge (graph s) v (- 2 * lb) (v + 1) \<rparr>
      | _ \<Rightarrow> s)"

definition soct_set :: "gr_ops \<Rightarrow> soct_params \<Rightarrow> 'v::linorder \<Rightarrow> interval \<Rightarrow> 'v soct \<Rightarrow> 'v soct" where
  "soct_set G P x intv s =
     (if is_bottom s then s
      else
        (let s1 = soct_forget G P x s
         in if interval_is_top intv then s1
            else
              (let (v, s2) = get_vert x s1
               in set_lb v (interval_lb intv) (set_ub v (interval_ub intv) s2))))"

text \<open>
  The interval of the interval query as the spec words it, for a variable with the
  vertices \<open>(v\<^sup>+, v\<^sup>-)\<close>: \<open>[-w(v\<^sup>+ \<rightarrow> v\<^sup>-)/2, w(v\<^sup>- \<rightarrow> v\<^sup>+)/2]\<close>, where a missing edge means
  an infinite bound.
\<close>

definition spec_interval :: "wgraph \<Rightarrow> vert_id \<Rightarrow> vert_id \<Rightarrow> interval" where
  "spec_interval g vp vn =
     mk_interval
       (case g_lookup g vp vn of Some w \<Rightarrow> Fin (num_div (- w) 2) | None \<Rightarrow> MInf)
       (case g_lookup g vn vp of Some w \<Rightarrow> Fin (num_div w 2) | None \<Rightarrow> PInf)"

section \<open>Variables, expressions and constraints\<close>

text \<open>
  Modelled from the spec: a variable is a typed name with a stable index; the types are
  boolean, integer, real, pointer and the four array flavours. A name is either a program
  variable or the variable that the variable factory keeps for a key (\<open>vfac.get(key, name)\<close>
  gives the same variable for the same key). A linear expression is a constant plus a
  finite set of (coefficient, variable) pairs; a linear constraint is a linear expression
  with a kind.
\<close>

datatype vtype = BOOL_TYPE | INT_TYPE | REAL_TYPE | PTR_TYPE
  | ARR_BOOL_TYPE | ARR_INT_TYPE | ARR_REAL_TYPE | ARR_PTR_TYPE

datatype varname = ProgVar nat | KeyVar nat

record var =
  v_name :: varname
  v_type :: vtype
  v_bitwidth :: nat

record linexp =
  le_constant :: int
  le_terms :: "(int \<times> var) list"

definition exp_of_number :: "int \<Rightarrow> linexp" where
  "exp_of_number k = \<lparr> le_constant = k, le_terms = [] \<rparr>"

definition exp_of_var :: "var \<Rightarrow> linexp" where
  "exp_of_var x = \<lparr> le_constant = 0, le_terms = [(1, x)] \<rparr>"

definition exp_is_constant :: "linexp \<Rightarrow> bool" where
  "exp_is_constant e = (le_terms e = [])"

definition exp_get_variable :: "linexp \<Rightarrow> var option" where
  "exp_get_variable e =
     (case le_terms e of
        [(c, x)] \<Rightarrow> if le_constant e = 0 \<and> c = 1 then Some x else None
      | _ \<Rightarrow> None)"

definition exp_scale :: "int \<Rightarrow> linexp \<Rightarrow> linexp" where
  "exp_scale k e = \<lparr> le_constant = k * le_constant e,
                     le_terms = map (\<lambda>(c, x). (k * c, x)) (le_terms e) \<rparr>"

datatype cst_kind = EQUALITY | DISEQUATION | INEQUALITY | STRICT_INEQUALITY

record lincst =
  cst_expression :: linexp
  cst_kind :: cst_kind

definition mk_cst :: "linexp \<Rightarrow> cst_kind \<Rightarrow> lincst" where
  "mk_cst e k = \<lparr> cst_expression = e, cst_kind = k \<rparr>"

definition cst_is_equality :: "lincst \<Rightarrow> bool" where
  "cst_is_equality c = (cst_kind c = EQUALITY)"

text \<open>
  Modelled from the spec: a constraint of kind equality is \<open>e = 0\<close>, an inequality is
  \<open>e \<le> 0\<close>, a disequality is \<open>e \<noteq> 0\<close> and a strict inequality is \<open>e < 0\<close>. A constraint
  over a constant expression is a tautology or a contradiction. The negation of an
  inequality is a strict inequality (and conversely), that of an equality is a
  disequality (and conversely).
\<close>

definition cst_holds_const :: "cst_kind \<Rightarrow> int \<Rightarrow> bool" where
  "cst_holds_const k c =
     (case k of EQUALITY \<Rightarrow> c = 0 | DISEQUATION \<Rightarrow> c \<noteq> 0
              | INEQUALITY \<Rightarrow> c \<le> 0 | STRICT_INEQUALITY \<Rightarrow> c < 0)"

definition cst_is_tautology :: "lincst \<Rightarrow> bool" where
  "cst_is_tautology c =
     (exp_is_constant (cst_expression c)
      \<and> cst_holds_const (cst_kind c) (le_constant (cst_expression c)))"

definition cst_is_contradiction :: "lincst \<Rightarrow> bool" where
  "cst_is_contradiction c =
     (exp_is_constant (cst_expression c)
      \<and> \<not> cst_holds_const (cst_kind c) (le_constant (cst_expression c)))"

definition cst_get_true :: lincst where
  "cst_get_true = mk_cst (exp_of_number 0) EQUALITY"

definition cst_get_false :: lincst where
  "cst_get_false = mk_cst (exp_of_number 0) DISEQUATION"

definition cst_negate :: "lincst \<Rightarrow> lincst" where
  "cst_negate c =
     (case cst_kind c of
        INEQUALITY \<Rightarrow> mk_cst (exp_scale (- 1) (cst_expression c)) STRICT_INEQUALITY
      | STRICT_INEQUALITY \<Rightarrow> mk_cst (exp_scale (- 1) (cst_expression c)) INEQUALITY
      | EQUALITY \<Rightarrow> mk_cst (cst_expression c) DISEQUATION
      | DISEQUATION \<Rightarrow> mk_cst (cst_expression c) EQUALITY)"

section \<open>The inner numerical domain\<close>

text \<open>
  The array domains and the domain traits are templates over a numerical domain
  (\<open>NumDomain\<close>, \<open>Domain\<close>). The model takes the domain's operations as a record over the
  type \<open>'d\<close> of its values; an operation that updates the value in place returns the
  new value.
\<close>

record 'd numdom =
  nd_is_bottom :: "'d \<Rightarrow> bool"
  nd_is_top :: "'d \<Rightarrow> bool"
  nd_leq :: "'d \<Rightarrow> 'd \<Rightarrow> bool"
  nd_join :: "'d \<Rightarrow> 'd \<Rightarrow> 'd"
  nd_assign :: "var \<Rightarrow> linexp \<Rightarrow> 'd \<Rightarrow> 'd"
  nd_forget :: "var \<Rightarrow> 'd \<Rightarrow> 'd"
  nd_get :: "'d \<Rightarrow> var \<Rightarrow> interval"
  nd_add_cst :: "lincst \<Rightarrow> 'd \<Rightarrow> 'd"
  nd_assign_bool_cst :: "var \<Rightarrow> lincst \<Rightarrow> 'd \<Rightarrow> 'd"
  nd_assign_bool_var :: "var \<Rightarrow> var \<Rightarrow> bool \<Rightarrow> 'd \<Rightarrow> 'd"
  nd_pointer_mk_null :: "var \<Rightarrow> 'd \<Rightarrow> 'd"
  nd_pointer_assign :: "var \<Rightarrow> var \<Rightarrow> linexp \<Rightarrow> 'd \<Rightarrow> 'd"

section \<open>Domain traits: entailment\<close>

text \<open>\<open>constraint_simp_domain_traits::lower_equality\<close>, appending to \<open>csts\<close>.\<close>

definition lower_equality :: "lincst \<Rightarrow> lincst list \<Rightarrow> lincst list" where
  "lower_equality cst csts =
     (if cst_is_equality cst
      then (csts @ [mk_cst (cst_expression cst) INEQUALITY])
             @ [mk_cst (exp_scale (- 1) (cst_expression cst)) INEQUALITY]
      else csts @ [cst])"

text \<open>The functor \<open>entailment\<close>: copy the domain, add the negated constraint, test for bottom.\<close>

definition entailment :: "'d numdom \<Rightarrow> 'd \<Rightarrow> lincst \<Rightarrow> bool" where
  "entailment D dom0 cst =
     (let dom1 = dom0;
          neg_cst = cst_negate cst;
          dom2 = nd_add_cst D neg_cst dom1
      in nd_is_bottom D dom2)"

definition entail_all_of :: "'d numdom \<Rightarrow> 'd \<Rightarrow> lincst list \<Rightarrow> bool" where
  "entail_all_of D inv0 csts = list_all (entailment D inv0) csts"

definition entail :: "'d numdom \<Rightarrow> 'd \<Rightarrow> lincst \<Rightarrow> bool" where
  "entail D inv0 cst =
     (if nd_is_bottom D inv0 then True
      else if cst_is_tautology cst then True
      else if cst_is_contradiction cst then False
      else if cst_is_equality cst
           then entail_all_of D inv0 (lower_equality cst [])
           else entailment D inv0 cst)"

section \<open>Array smashing\<close>

text \<open>\<open>strong_update\<close> and \<open>weak_update\<close> of \<open>array_smashing\<close>, on the inner value \<open>_inv\<close>.\<close>

definition strong_update :: "'d numdom \<Rightarrow> var \<Rightarrow> linexp \<Rightarrow> 'd \<Rightarrow> 'd" where
  "strong_update D a rhs inv0 =
     (if v_type a = ARR_BOOL_TYPE then
        (if exp_is_constant rhs then
           (if le_constant rhs \<ge> 1
            then nd_assign_bool_cst D a cst_get_true inv0
            else nd_assign_bool_cst D a cst_get_false inv0)
         else (case exp_get_variable rhs of
                 Some rhs_v \<Rightarrow> nd_assign_bool_var D a rhs_v False inv0
               | None \<Rightarrow> inv0))
      else if v_type a = ARR_INT_TYPE \<or> v_type a = ARR_REAL_TYPE then
        nd_assign D a rhs inv0
      else if v_type a = ARR_PTR_TYPE then
        (if exp_is_constant rhs \<and> le_constant rhs = 0 then nd_pointer_mk_null D a inv0
         else (case exp_get_variable rhs of
                 Some rhs_v \<Rightarrow> nd_pointer_assign D a rhs_v (exp_of_number 0) inv0
               | None \<Rightarrow> inv0))
      else inv0)"

definition weak_update :: "'d numdom \<Rightarrow> var \<Rightarrow> linexp \<Rightarrow> 'd \<Rightarrow> 'd" where
  "weak_update D a rhs inv0 =
     (let other0 = inv0;
          other =
            (if v_type a = ARR_BOOL_TYPE then
               (if exp_is_constant rhs then
                  (if le_constant rhs \<ge> 1
                   then nd_assign_bool_cst D a cst_get_true other0
                   else nd_assign_bool_cst D a cst_get_false other0)
                else (case exp_get_variable rhs of
                        Some rhs_v \<Rightarrow> nd_assign_bool_var D a rhs_v False other0
                      | None \<Rightarrow> other0))
             else if v_type a = ARR_INT_TYPE \<or> v_type a = ARR_REAL_TYPE then
               nd_assign D a rhs other0
             else if v_type a = ARR_PTR_TYPE then
               (if exp_is_constant rhs \<and> le_constant rhs = 0 then nd_pointer_mk_null D a other0
                else (case exp_get_variable rhs of
                        Some rhs_v \<Rightarrow> nd_pointer_assign D a rhs_v (exp_of_number 0) other0
                      | None \<Rightarrow> other0))
             else other0)
      in nd_join D inv0 other)"

definition smashing_array_store :: "'d numdom \<Rightarrow> var \<Rightarrow> linexp \<Rightarrow> linexp \<Rightarrow> linexp \<Rightarrow> bool
    \<Rightarrow> 'd \<Rightarrow> 'd" where
  "smashing_array_store D a elem_size i val is_singleton_store inv0 =
     (if is_singleton_store then strong_update D a val inv0 else weak_update D a val inv0)"

section \<open>Array expansion\<close>

subsection \<open>Cells\<close>

text \<open>
  A cell holds its offset (\<open>offset_t\<close> wraps an \<open>ikos::index_t\<close>, an unsigned 64-bit
  integer), its size (\<open>unsigned\<close>) and an optional scalar variable. The byte interval of
  a cell is computed in the index type, so \<open>offset + size - 1\<close> wraps around.
\<close>

record cell =
  c_offset :: nat
  c_size :: nat
  c_scalar :: "var option"

definition null_cell :: cell where
  "null_cell = \<lparr> c_offset = 0, c_size = 0, c_scalar = None \<rparr>"

definition cell_of_scalar :: "nat \<Rightarrow> var \<Rightarrow> cell" where
  "cell_of_scalar off scalar =
     \<lparr> c_offset = off, c_size = v_bitwidth scalar, c_scalar = Some scalar \<rparr>"

definition cell_of_size :: "nat \<Rightarrow> nat \<Rightarrow> cell" where
  "cell_of_size off sz = \<lparr> c_offset = off, c_size = sz, c_scalar = None \<rparr>"

definition cell_to_interval :: "nat \<Rightarrow> nat \<Rightarrow> interval" where
  "cell_to_interval off sz =
     mk_interval (Fin (int off)) (Fin (int ((off + sz + (2 ^ 64 - 1)) mod 2 ^ 64)))"

definition is_null :: "cell \<Rightarrow> bool" where
  "is_null c = (c_offset c = 0 \<and> c_size c = 0)"

definition has_scalar :: "cell \<Rightarrow> bool" where
  "has_scalar c = (c_scalar c \<noteq> None)"

definition cell_eq :: "cell \<Rightarrow> cell \<Rightarrow> bool" where
  "cell_eq x y = (c_offset x = c_offset y \<and> c_size x = c_size y)"

definition cell_less :: "cell \<Rightarrow> cell \<Rightarrow> bool" where
  "cell_less x y =
     (if c_offset x < c_offset y then True
      else if c_offset x = c_offset y then c_size x < c_size y
      else False)"

definition overlap :: "cell \<Rightarrow> nat \<Rightarrow> nat \<Rightarrow> bool" where
  "overlap c off sz =
     (let x = cell_to_interval (c_offset c) (c_size c);
          y = cell_to_interval off sz
      in \<not> interval_is_bottom (interval_meet x y))"

text \<open>
  \<open>cell_set_t\<close> is a \<open>std::set\<close> of cells ordered by \<open>operator<\<close>: a list kept in that
  order. \<open>set_insert\<close> also tells whether the cell was inserted, \<open>set_erase\<close> how many
  cells were erased; two cells are equivalent keys exactly when \<open>operator==\<close> holds.
\<close>

fun set_insert :: "cell \<Rightarrow> cell list \<Rightarrow> cell list \<times> bool" where
  "set_insert c [] = ([c], True)"
| "set_insert c (x # xs) =
     (if cell_less c x then (c # x # xs, True)
      else if cell_less x c then (let r = set_insert c xs in (x # fst r, snd r))
      else (x # xs, False))"

definition set_erase :: "cell \<Rightarrow> cell list \<Rightarrow> cell list \<times> nat" where
  "set_erase c cs =
     (filter (\<lambda>x. \<not> cell_eq x c) cs, length (filter (\<lambda>x. cell_eq x c) cs))"

definition set_find :: "cell \<Rightarrow> cell list \<Rightarrow> cell option" where
  "set_find c cs = find (\<lambda>x. cell_eq x c) cs"

subsection \<open>The offset map\<close>

text \<open>
  Modelled from the spec: the Patricia tree is a map keyed by unsigned integers whose
  traversal is sorted by key, with \<open>lookup\<close>, \<open>insert\<close> and \<open>remove\<close>. It is a list of
  bindings in increasing key order.
\<close>

type_synonym offset_map = "(nat \<times> cell list) list"

definition pt_lookup :: "offset_map \<Rightarrow> nat \<Rightarrow> cell list option" where
  "pt_lookup m k = map_of m k"

fun pt_insert :: "nat \<Rightarrow> cell list \<Rightarrow> offset_map \<Rightarrow> offset_map" where
  "pt_insert k v [] = [(k, v)]"
| "pt_insert k v ((k', v') # m) =
     (if k < k' then (k, v) # (k', v') # m
      else if k = k' then (k, v) # m
      else (k', v') # pt_insert k v m)"

definition pt_remove :: "nat \<Rightarrow> offset_map \<Rightarrow> offset_map" where
  "pt_remove k m = filter (\<lambda>b. fst b \<noteq> k) m"

datatype error =
    CannotInsertCellWithoutScalar
  | CreatedCellWithoutScalar
  | CellWithoutScalarInStore
  | CannotGetUndefinedScalar
  | DivisionByZero

definition remove_cell :: "cell \<Rightarrow> offset_map \<Rightarrow> offset_map" where
  "remove_cell c m =
     (case pt_lookup m (c_offset c) of
        Some cells \<Rightarrow>
          (let r = set_erase c cells
           in if snd r > 0
              then (let m1 = pt_remove (c_offset c) m
                    in if fst r \<noteq> [] then pt_insert (c_offset c) (fst r) m1 else m1)
              else m)
      | None \<Rightarrow> m)"

definition insert_cell :: "cell \<Rightarrow> bool \<Rightarrow> offset_map \<Rightarrow> error + offset_map" where
  "insert_cell c sanity_check m =
     (if sanity_check \<and> \<not> has_scalar c then Inl CannotInsertCellWithoutScalar
      else
        (case pt_lookup m (c_offset c) of
           Some cells \<Rightarrow>
             (let r = set_insert c cells
              in if snd r
                 then Inr (pt_insert (c_offset c) (fst r) (pt_remove (c_offset c) m))
                 else Inr m)
         | None \<Rightarrow> Inr (pt_insert (c_offset c) [c] m)))"

definition get_cell :: "offset_map \<Rightarrow> nat \<Rightarrow> nat \<Rightarrow> cell" where
  "get_cell m off sz =
     (case pt_lookup m off of
        Some cells \<Rightarrow>
          (case set_find (cell_of_size off sz) cells of
             Some c \<Rightarrow> c
           | None \<Rightarrow> null_cell)
      | None \<Rightarrow> null_cell)"

definition get_array_element_type :: "vtype \<Rightarrow> vtype" where
  "get_array_element_type array_type =
     (if array_type = ARR_BOOL_TYPE then BOOL_TYPE
      else if array_type = ARR_INT_TYPE then INT_TYPE
      else if array_type = ARR_REAL_TYPE then REAL_TYPE
      else PTR_TYPE)"

text \<open>
  The process-wide table \<open>_index_map\<close> from (array, offset, size) to an index; a new triple
  gets the current size of the table.
\<close>

type_synonym index_map = "((varname \<times> nat \<times> nat) \<times> nat) list"

definition get_index :: "var \<Rightarrow> nat \<Rightarrow> nat \<Rightarrow> index_map \<Rightarrow> nat \<times> index_map" where
  "get_index a off sz im =
     (case map_of im (v_name a, off, sz) of
        Some r \<Rightarrow> (r, im)
      | None \<Rightarrow> (length im, im @ [((v_name a, off, sz), length im)]))"

definition mk_cell :: "var \<Rightarrow> nat \<Rightarrow> nat \<Rightarrow> offset_map \<times> index_map
    \<Rightarrow> error + (cell \<times> offset_map \<times> index_map)" where
  "mk_cell array off sz mi =
     (let m = fst mi; im = snd mi; c = get_cell m off sz
      in if is_null c then
           (let vtype = get_array_element_type (v_type array);
                (vindex, im') = get_index array off sz im;
                scalar_var = \<lparr> v_name = KeyVar vindex, v_type = vtype, v_bitwidth = sz \<rparr>;
                c' = cell_of_scalar off scalar_var
            in case insert_cell c' True m of
                 Inl e \<Rightarrow> Inl e
               | Inr m' \<Rightarrow>
                   if \<not> has_scalar c' then Inl CreatedCellWithoutScalar
                   else Inr (c', m', im'))
         else if \<not> has_scalar c then Inl CreatedCellWithoutScalar
         else Inr (c, m, im))"

definition remove_cells :: "cell list \<Rightarrow> offset_map \<Rightarrow> offset_map" where
  "remove_cells cells m = foldl (\<lambda>m c. remove_cell c m) m cells"

subsection \<open>Overlapping cells\<close>

text \<open>
  \<open>get_overlap_cells\<close>. The three scans below are the bodies of its three loops over the
  cells of one bucket; each returns the extended \<open>out\<close> and \<open>continue_outer_loop\<close>.
\<close>

definition push_unique :: "cell \<Rightarrow> cell list \<Rightarrow> cell list" where
  "push_unique x out = (if find (\<lambda>y. cell_eq y x) out = None then out @ [x] else out)"

definition scan_lb :: "cell \<Rightarrow> nat \<Rightarrow> nat \<Rightarrow> cell list \<Rightarrow> cell list \<Rightarrow> cell list \<times> bool" where
  "scan_lb c off sz bucket out =
     foldl (\<lambda>acc x.
              if overlap x off sz
              then ((if \<not> cell_eq x c then push_unique x (fst acc) else fst acc), True)
              else acc)
       (out, False) bucket"

definition scan_ub :: "nat \<Rightarrow> nat \<Rightarrow> cell list \<Rightarrow> cell list \<Rightarrow> cell list \<times> bool" where
  "scan_ub off sz bucket out =
     foldl (\<lambda>acc x.
              if overlap x off sz then (push_unique x (fst acc), True) else acc)
       (out, False) bucket"

definition scan_rest :: "cell \<Rightarrow> nat \<Rightarrow> nat \<Rightarrow> cell list \<Rightarrow> cell list \<Rightarrow> cell list \<times> bool" where
  "scan_rest c off sz bucket out =
     foldl (\<lambda>acc x.
              if cell_eq x c then acc
              else if overlap x off sz
              then ((if \<not> cell_eq x c then push_unique x (fst acc) else fst acc), True)
              else acc)
       (out, False) bucket"

text \<open>
  The loops over the buckets, each ending at the first bucket without an overlapping
  cell. \<open>walk_ub\<close> also counts how far \<open>ub_it\<close> has advanced.
\<close>

fun walk_lb :: "cell \<Rightarrow> nat \<Rightarrow> nat \<Rightarrow> cell list list \<Rightarrow> cell list \<Rightarrow> cell list" where
  "walk_lb c off sz [] out = out"
| "walk_lb c off sz (b # bs) out =
     (let r = scan_lb c off sz b out
      in if \<not> snd r then fst r else walk_lb c off sz bs (fst r))"

fun walk_ub :: "nat \<Rightarrow> nat \<Rightarrow> cell list list \<Rightarrow> cell list \<Rightarrow> cell list \<times> nat" where
  "walk_ub off sz [] out = (out, 0)"
| "walk_ub off sz (b # bs) out =
     (let r = scan_ub off sz b out
      in if \<not> snd r then (fst r, 0)
         else (let r' = walk_ub off sz bs (fst r) in (fst r', Suc (snd r'))))"

fun walk_rest :: "cell \<Rightarrow> nat \<Rightarrow> nat \<Rightarrow> cell list list \<Rightarrow> cell list \<Rightarrow> cell list" where
  "walk_rest c off sz [] out = out"
| "walk_rest c off sz (b # bs) out =
     (let r = scan_rest c off sz b out
      in if \<not> snd r then fst r else walk_rest c off sz bs (fst r))"

text \<open>
  \<open>lb\<close> and \<open>ub\<close> are the positions of \<open>std::lower_bound\<close> and \<open>std::upper_bound\<close> in the
  sorted sequence of bindings. The bucket at \<open>off\<close> exists when they are computed (it
  holds the cell for \<open>(off, sz)\<close> or the temporary one), so \<open>lb_it\<close> is that bucket and the
  third loop runs from the bucket after it up to where the second loop stopped.
\<close>

definition get_overlap_cells :: "nat \<Rightarrow> nat \<Rightarrow> cell list \<Rightarrow> offset_map \<Rightarrow> cell list \<times> offset_map" where
  "get_overlap_cells off sz out m =
     (let c0 = get_cell m off sz;
          added = is_null c0;
          c = (if added then cell_of_size off sz else c0);
          m1 = (if added
                then (case insert_cell c False m of Inr m' \<Rightarrow> m' | Inl e \<Rightarrow> m)
                else m);
          lb = length (takeWhile (\<lambda>b. fst b < off) m1);
          out1 = (if lb \<noteq> length m1
                  then walk_lb c off sz (rev (map snd (take (lb + 1) m1))) out
                  else out);
          ub = length (takeWhile (\<lambda>b. \<not> off < fst b) m1);
          r = walk_ub off sz (map snd (drop ub m1)) out1;
          ub' = ub + snd r;
          out3 = walk_rest c off sz (map snd (take (ub' - (lb + 1)) (drop (lb + 1) m1))) (fst r);
          m2 = (if added then remove_cell c m1 else m1)
      in (out3, m2))"

subsection \<open>The domain\<close>

text \<open>
  The arguments of one \<open>CRAB_WARN\<close> call, in the order of the call: a string literal, a
  number, an offset, an index (\<open>o.index() + size - 1\<close>, computed in the 64-bit index type)
  or a linear expression.
\<close>

datatype warn_arg =
    Text string
  | Num int
  | Off nat
  | Idx nat
  | Exp linexp

text \<open>
  A value of \<open>array_expansion_domain\<close> is the pair of \<open>_array_map\<close> and \<open>_inv\<close>. A variable
  without a binding in \<open>_array_map\<close> has the empty offset map. The state also carries the
  process-wide index table and the warnings written by \<open>CRAB_WARN\<close>.
\<close>

record 'd ae_state =
  ae_array_map :: "var \<Rightarrow> offset_map"
  ae_inv :: 'd
  ae_index_map :: index_map
  ae_warnings :: "warn_arg list list"

definition CRAB_WARN :: "warn_arg list \<Rightarrow> 'd ae_state \<Rightarrow> 'd ae_state" where
  "CRAB_WARN msg s = s\<lparr> ae_warnings := ae_warnings s @ [msg] \<rparr>"

definition ae_is_bottom :: "'d numdom \<Rightarrow> 'd ae_state \<Rightarrow> bool" where
  "ae_is_bottom D s = nd_is_bottom D (ae_inv s)"

definition ae_is_top :: "'d numdom \<Rightarrow> 'd ae_state \<Rightarrow> bool" where
  "ae_is_top D s = nd_is_top D (ae_inv s)"

definition to_interval :: "'d numdom \<Rightarrow> 'd \<Rightarrow> linexp \<Rightarrow> interval" where
  "to_interval D d expr =
     foldl (\<lambda>r cx. interval_add r (interval_mul (interval_of_number (fst cx)) (nd_get D d (snd cx))))
       (interval_of_number (le_constant expr)) (le_terms expr)"

text \<open>
  The casts \<open>(long)\<close> of a number into an offset (\<open>index_t\<close>, 64 bits) and into a size
  (\<open>unsigned\<close>, 32 bits).
\<close>

definition number_to_offset :: "int \<Rightarrow> nat" where
  "number_to_offset n = nat (n mod 2 ^ 64)"

definition number_to_size :: "int \<Rightarrow> nat" where
  "number_to_size n = nat (n mod 2 ^ 32)"

definition array_load :: "'d numdom \<Rightarrow> var \<Rightarrow> var \<Rightarrow> linexp \<Rightarrow> linexp \<Rightarrow> 'd ae_state
    \<Rightarrow> error + 'd ae_state" where
  "array_load D lhs a elem_size i s =
     (if ae_is_bottom D s \<or> ae_is_top D s then Inr s
      else
        (let ii = to_interval D (ae_inv s) i
         in case interval_singleton ii of
              Some n \<Rightarrow>
                (let offset_map = ae_array_map s a;
                     off = number_to_offset n;
                     i_elem_size = to_interval D (ae_inv s) elem_size
                 in case interval_singleton i_elem_size of
                      None \<Rightarrow>
                        Inr (CRAB_WARN
                          [Text ''array expansion ignored array load because element size is not constant''] s)
                    | Some n_bytes \<Rightarrow>
                        (let sz = number_to_size n_bytes;
                             r = get_overlap_cells off sz [] offset_map
                         in if fst r \<noteq> [] then
                              (let s1 = CRAB_WARN
                                 [Text ''array expansion ignored read from cell ['', Off off,
                                  Text ''...'', Idx ((off + sz + (2 ^ 64 - 1)) mod 2 ^ 64),
                                  Text '']'', Text '' because it overlaps with other cells.''] s
                               in Inr (s1\<lparr> ae_inv := nd_forget D lhs (ae_inv s1) \<rparr>))
                            else
                              (case mk_cell a off sz (snd r, ae_index_map s) of
                                 Inl e \<Rightarrow> Inl e
                               | Inr (c, offset_map', im') \<Rightarrow>
                                   (case c_scalar c of
                                      None \<Rightarrow> Inl CannotGetUndefinedScalar
                                    | Some scalar \<Rightarrow>
                                        Inr (s\<lparr> ae_inv := nd_assign D lhs (exp_of_var scalar) (ae_inv s),
                                               ae_array_map := (ae_array_map s)(a := offset_map'),
                                               ae_index_map := im' \<rparr>)))))
            | None \<Rightarrow>
                (let s1 = CRAB_WARN
                   [Text ''array expansion: ignored read because of non-constant array index '', Exp i] s
                 in Inr (s1\<lparr> ae_inv := nd_forget D lhs (ae_inv s1) \<rparr>))))"

fun forget_scalars :: "'d numdom \<Rightarrow> cell list \<Rightarrow> 'd \<Rightarrow> error + 'd" where
  "forget_scalars D [] d = Inr d"
| "forget_scalars D (c # cs) d =
     (case c_scalar c of
        Some scalar \<Rightarrow> forget_scalars D cs (nd_forget D scalar d)
      | None \<Rightarrow> Inl CellWithoutScalarInStore)"

definition array_store :: "'d numdom \<Rightarrow> var \<Rightarrow> linexp \<Rightarrow> linexp \<Rightarrow> linexp \<Rightarrow> bool \<Rightarrow> 'd ae_state
    \<Rightarrow> error + 'd ae_state" where
  "array_store D a elem_size i val is_singleton_store s =
     (if ae_is_bottom D s then Inr s
      else
        (let ii = to_interval D (ae_inv s) i
         in case interval_singleton ii of
              Some n \<Rightarrow>
                (let offset_map = ae_array_map s a;
                     off = number_to_offset n;
                     i_elem_size = to_interval D (ae_inv s) elem_size
                 in case interval_singleton i_elem_size of
                      None \<Rightarrow>
                        Inr (CRAB_WARN
                          [Text ''array expansion ignored array store because element size is not constant''] s)
                    | Some n_bytes \<Rightarrow>
                        (let sz = number_to_size n_bytes;
                             r = get_overlap_cells off sz [] offset_map;
                             cells = fst r
                         in case (if length cells > 0
                                  then (case forget_scalars D cells (ae_inv s) of
                                          Inl e \<Rightarrow> Inl e
                                        | Inr d \<Rightarrow> Inr (d, remove_cells cells (snd r)))
                                  else Inr (ae_inv s, snd r)) of
                              Inl e \<Rightarrow> Inl e
                            | Inr (d, offset_map1) \<Rightarrow>
                                (case mk_cell a off sz (offset_map1, ae_index_map s) of
                                   Inl e \<Rightarrow> Inl e
                                 | Inr (c, offset_map', im') \<Rightarrow>
                                     (case c_scalar c of
                                        None \<Rightarrow> Inl CannotGetUndefinedScalar
                                      | Some scalar \<Rightarrow>
                                          Inr (s\<lparr> ae_inv := nd_assign D scalar val d,
                                                 ae_array_map := (ae_array_map s)(a := offset_map'),
                                                 ae_index_map := im' \<rparr>)))))
            | None \<Rightarrow>
                Inr (CRAB_WARN
                  [Text ''array expansion: ignored write because of non-constant array index '', Exp i] s)))"

text \<open>
  The loop of \<open>array_init\<close>: \<open>for (i = lb, e = ub; i < e; ) { array_store(..., i, ...); i = i + n; }\<close>.
  It need not terminate (a step \<open>n \<le> 0\<close>), so it is a partial function: \<open>None\<close> stands for
  a loop that runs forever.
\<close>

partial_function (option) init_loop :: "'d numdom \<Rightarrow> var \<Rightarrow> linexp \<Rightarrow> linexp \<Rightarrow> int \<Rightarrow> int \<Rightarrow> int
    \<Rightarrow> 'd ae_state \<Rightarrow> (error + 'd ae_state) option" where
  "init_loop D a elem_size val n e i s =
     (if i < e
      then (case array_store D a elem_size (exp_of_number i) val False s of
              Inl err \<Rightarrow> Some (Inl err)
            | Inr s' \<Rightarrow> init_loop D a elem_size val n e (i + n) s')
      else Some (Inr s))"

text \<open>
  The remainder \<open>%\<close> of the number class, which is not part of the sources. On a divisor
  other than zero it is the remainder of the division that truncates toward zero (it is
  only compared with zero); what \<open>x % 0\<close> does is the parameter \<open>rem_by_zero\<close>, which
  returns a number or fails.
\<close>

definition number_rem :: "(int \<Rightarrow> error + int) \<Rightarrow> int \<Rightarrow> int \<Rightarrow> error + int" where
  "number_rem rem_by_zero x n = (if n = 0 then rem_by_zero x else Inr (x smod n))"

text \<open>\<open>array_init\<close>.\<close>

definition array_init :: "'d numdom \<Rightarrow> (int \<Rightarrow> error + int) \<Rightarrow> var \<Rightarrow> linexp \<Rightarrow> linexp \<Rightarrow> linexp
    \<Rightarrow> linexp \<Rightarrow> 'd ae_state \<Rightarrow> (error + 'd ae_state) option" where
  "array_init D rem_by_zero a elem_size lb_idx ub_idx val s =
     (if ae_is_bottom D s \<or> ae_is_top D s then Some (Inr s)
      else
        (case interval_singleton (to_interval D (ae_inv s) lb_idx) of
           None \<Rightarrow> Some (Inr (CRAB_WARN
             [Text ''array expansion initialization ignored because '',
              Text ''lower bound is not constant''] s))
         | Some lb \<Rightarrow>
             (case interval_singleton (to_interval D (ae_inv s) ub_idx) of
                None \<Rightarrow> Some (Inr (CRAB_WARN
                  [Text ''array expansion initialization ignored because '',
                   Text ''upper bound is not constant''] s))
              | Some ub \<Rightarrow>
                  (case interval_singleton (to_interval D (ae_inv s) elem_size) of
                     None \<Rightarrow> Some (Inr (CRAB_WARN
                       [Text ''array expansion initialization ignored because '',
                        Text ''elem size is not constant''] s))
                   | Some n \<Rightarrow>
                       (case number_rem rem_by_zero (ub - lb) n of
                          Inl e \<Rightarrow> Some (Inl e)
                        | Inr r \<Rightarrow>
                            if r \<noteq> 0 then
                              Some (Inr (CRAB_WARN
                                [Text ''array expansion initialization ignored because '',
                                 Text ''the number of elements must be divisible by '', Num n] s))
                            else if ub - lb > 512 then
                              Some (Inr (CRAB_WARN
                                [Text ''array expansion initialization ignored because '',
                                 Text ''the number of elements is larger than default limit of '',
                                 Num 512] s))
                            else init_loop D a elem_size val n ub lb s)))))"

text \<open>
  The stores that the spec describes for \<open>array_init\<close>: one store of \<open>val\<close> at each of the
  offsets \<open>lb, lb + n, ..., ub - n\<close>, in this order, stopping at a store that fails.
\<close>

definition init_offsets :: "int \<Rightarrow> int \<Rightarrow> int \<Rightarrow> int list" where
  "init_offsets lb ub n = map (\<lambda>j. lb + int j * n) [0 ..< nat ((ub - lb) div n)]"

fun store_all :: "'d numdom \<Rightarrow> var \<Rightarrow> linexp \<Rightarrow> linexp \<Rightarrow> int list \<Rightarrow> 'd ae_state
    \<Rightarrow> error + 'd ae_state" where
  "store_all D a elem_size val [] s = Inr s"
| "store_all D a elem_size val (k # ks) s =
     (case array_store D a elem_size (exp_of_number k) val False s of
        Inl err \<Rightarrow> Inl err
      | Inr s' \<Rightarrow> store_all D a elem_size val ks s')"

text \<open>
  The conditions of \<open>array_init\<close>: the state passes the guard and \<open>lb\<close>, \<open>ub\<close> and the element
  size are the constants \<open>lb\<close>, \<open>ub\<close> and \<open>n\<close>; the remainder \<open>(ub - lb) % n\<close> is zero.
\<close>

definition init_constants :: "'d numdom \<Rightarrow> 'd ae_state \<Rightarrow> linexp \<Rightarrow> linexp \<Rightarrow> linexp
    \<Rightarrow> int \<Rightarrow> int \<Rightarrow> int \<Rightarrow> bool" where
  "init_constants D s lb_idx ub_idx elem_size lb ub n =
     (\<not> ae_is_bottom D s \<and> \<not> ae_is_top D s
      \<and> interval_singleton (to_interval D (ae_inv s) lb_idx) = Some lb
      \<and> interval_singleton (to_interval D (ae_inv s) ub_idx) = Some ub
      \<and> interval_singleton (to_interval D (ae_inv s) elem_size) = Some n)"

definition init_divisible :: "(int \<Rightarrow> error + int) \<Rightarrow> int \<Rightarrow> int \<Rightarrow> int \<Rightarrow> bool" where
  "init_divisible rem_by_zero lb ub n = (number_rem rem_by_zero (ub - lb) n = Inr 0)"

section \<open>Well-formed offset maps\<close>

text \<open>
  The invariant of an offset map: the keys increase strictly, no bucket is empty, and the
  cells of the bucket at a key have that offset. The cells of a domain value also carry
  their scalar variable.
\<close>

definition wf_bucket :: "nat \<times> cell list \<Rightarrow> bool" where
  "wf_bucket kb = (snd kb \<noteq> [] \<and> list_all (\<lambda>x. c_offset x = fst kb) (snd kb))"

definition wf_offset_map :: "offset_map \<Rightarrow> bool" where
  "wf_offset_map m = (sorted_wrt (<) (map fst m) \<and> list_all wf_bucket m)"

definition all_scalars :: "offset_map \<Rightarrow> bool" where
  "all_scalars m = list_all (\<lambda>kb. list_all has_scalar (snd kb)) m"

text \<open>
  The three scans and the three walks of \<open>get_overlap_cells\<close> have one shape: a cell that
  satisfies \<open>P\<close> makes the walk go on, and is pushed when it also satisfies \<open>Q\<close>.
\<close>

definition gscan :: "(cell \<Rightarrow> bool) \<Rightarrow> (cell \<Rightarrow> bool) \<Rightarrow> cell list \<Rightarrow> cell list \<times> bool
    \<Rightarrow> cell list \<times> bool" where
  "gscan P Q bucket acc0 =
     foldl (\<lambda>acc x. if P x then ((if Q x then push_unique x (fst acc) else fst acc), True) else acc)
       acc0 bucket"

fun gwalk :: "(cell \<Rightarrow> bool) \<Rightarrow> (cell \<Rightarrow> bool) \<Rightarrow> cell list list \<Rightarrow> cell list \<Rightarrow> cell list" where
  "gwalk P Q [] out = out"
| "gwalk P Q (b # bs) out =
     (let r = gscan P Q b (out, False)
      in if \<not> snd r then fst r else gwalk P Q bs (fst r))"

definition in_eq :: "cell \<Rightarrow> cell list \<Rightarrow> bool" where
  "in_eq x out = (\<exists>y \<in> set out. cell_eq y x)"

text \<open>Removing cells bucket by bucket, dropping the buckets that become empty.\<close>

definition residue :: "cell list \<Rightarrow> cell list list \<Rightarrow> cell list list" where
  "residue S bs = filter (\<lambda>b. b \<noteq> []) (map (filter (\<lambda>x. \<not> in_eq x S)) bs)"

definition purge :: "cell list \<Rightarrow> offset_map \<Rightarrow> offset_map" where
  "purge S m =
     filter (\<lambda>kb. snd kb \<noteq> []) (map (\<lambda>kb. (fst kb, filter (\<lambda>x. \<not> in_eq x S) (snd kb))) m)"

definition below :: "offset_map \<Rightarrow> nat \<Rightarrow> cell list list" where
  "below m off = rev (map snd (filter (\<lambda>kb. fst kb < off) m))"

definition above :: "offset_map \<Rightarrow> nat \<Rightarrow> cell list list" where
  "above m off = map snd (filter (\<lambda>kb. off < fst kb) m)"

definition at_bucket :: "offset_map \<Rightarrow> nat \<Rightarrow> cell list" where
  "at_bucket m off = (case map_of m off of None \<Rightarrow> [] | Some b \<Rightarrow> b)"

definition cells_of :: "offset_map \<Rightarrow> cell set" where
  "cells_of m = \<Union> (set ` snd ` set m)"

text \<open>
  The three loops of \<open>get_overlap_cells\<close> on the bucket at the offset, the buckets below
  it (nearest first) and the buckets above it.
\<close>

definition overlap_walks :: "cell \<Rightarrow> nat \<Rightarrow> nat \<Rightarrow> cell list \<Rightarrow> cell list list \<Rightarrow> cell list list
    \<Rightarrow> cell list \<Rightarrow> cell list" where
  "overlap_walks c off sz b bel abv out =
     (let out1 = walk_lb c off sz (b # bel) out;
          r = walk_ub off sz abv out1
      in walk_rest c off sz (take (snd r) abv) (fst r))"

text \<open>
  An offset map is settled at \<open>(off, sz)\<close> when it holds a cell for \<open>(off, sz)\<close> and the three
  loops of \<open>get_overlap_cells\<close> started at \<open>off\<close> meet no other overlapping cell before
  they stop.
\<close>

definition settled :: "offset_map \<Rightarrow> nat \<Rightarrow> nat \<Rightarrow> bool" where
  "settled m off sz =
     (in_eq (cell_of_size off sz) (at_bucket m off)
      \<and> (\<forall>x \<in> set (at_bucket m off). overlap x off sz \<longrightarrow> cell_eq x (cell_of_size off sz))
      \<and> ((\<exists>x \<in> set (at_bucket m off). overlap x off sz) \<longrightarrow>
           below m off = [] \<or> \<not> (\<exists>x \<in> set (hd (below m off)). overlap x off sz))
      \<and> (above m off = [] \<or> \<not> (\<exists>x \<in> set (hd (above m off)). overlap x off sz)))"

section \<open>Coherence\<close>

text \<open>
  The coherence property of the spec: \<open>neg(2k) = 2k+1\<close>, \<open>neg(2k+1) = 2k\<close>, and every
  edge \<open>u \<rightarrow> v\<close> between the vertices of two distinct variables has the mirror edge
  \<open>neg(v) \<rightarrow> neg(u)\<close> with the same weight.
\<close>

definition neg :: "vert_id \<Rightarrow> vert_id" where
  "neg v = (if v mod 2 = 0 then v + 1 else v - 1)"






text \<open>
  The delta that \<open>normalize\<close> applies when the unstable set is not empty after its loops:
  that of close-after-widen, or of the Johnson closure if the restabilize flag is off.
\<close>

definition restabilize_delta :: "gr_ops \<Rightarrow> soct_params \<Rightarrow> 'v soct \<Rightarrow> edge_vector" where
  "restabilize_delta G P s1 =
     (if widen_restabilize P
      then go_close_after_widen G (graph s1) (potential s1) (unstable s1)
      else go_close_johnson G (graph s1) (potential s1))"


section \<open>Example values\<close>

text \<open>
  Concrete values at which the theorems below are instantiated. \<open>const_ops\<close> is an
  instance of the graph algorithms that changes nothing and in which potential selection
  always reports a negative cycle.
\<close>

definition const_ops :: gr_ops where
  "const_ops = \<lparr> go_widen = (\<lambda>gx gy. (snd gx, [])),
      go_meet = (\<lambda>gx gy. (snd gx, True)),
      go_select_potentials = (\<lambda>g pi. (False, pi)),
      go_close_after_meet = (\<lambda>g pi gx gy. []),
      go_close_johnson = (\<lambda>g pi. []),
      go_close_after_widen = (\<lambda>g pi u. []),
      go_apply_delta = (\<lambda>g d b. g),
      go_repair_potential = (\<lambda>g pi u v. (True, pi)) \<rparr>"

definition two_vert_state :: "nat soct" where
  "two_vert_state = \<lparr> vert_map = [(7, (0, 1))], rev_map = [Some 7, Some 7],
     graph = \<lparr> g_edge = (\<lambda>u v. None), g_is_free = [False, False], g_free_id = [] \<rparr>,
     potential = [0, 0], unstable = {}, is_bottom_flag = False \<rparr>"

text \<open>
  A state in which the free list holds the identifiers 0 and 1, pushed in this order when
  a variable was forgotten: \<open>new_vertex\<close> hands out 1 and then 0.
\<close>

definition freed_state :: "nat soct" where
  "freed_state = \<lparr> vert_map = [], rev_map = [None, None],
     graph = \<lparr> g_edge = (\<lambda>u v. None), g_is_free = [True, True], g_free_id = [0, 1] \<rparr>,
     potential = [0, 0], unstable = {}, is_bottom_flag = False \<rparr>"

text \<open>The state reached from \<open>two_vert_state\<close> by \<open>set(x, [1, 5])\<close> on its variable.\<close>

definition after_set :: "nat soct" where
  "after_set = soct_set const_ops DefaultParams 7 (Range (Fin 1) (Fin 5)) two_vert_state"

subsection \<open>An interval environment as inner domain\<close>

text \<open>
  A small non-relational domain used as the inner numerical domain in the instances
  below: bottom, or a list of bindings from variables to intervals, where an unbound
  variable is unconstrained. Constraints are only checked against the intervals, booleans
  and pointers are not tracked.
\<close>

type_synonym ienv = "(var \<times> interval) list option"

definition ienv_get :: "ienv \<Rightarrow> var \<Rightarrow> interval" where
  "ienv_get d x =
     (case d of None \<Rightarrow> Bot
      | Some e \<Rightarrow> (case map_of e x of None \<Rightarrow> interval_top | Some i \<Rightarrow> i))"

definition ienv_forget :: "var \<Rightarrow> ienv \<Rightarrow> ienv" where
  "ienv_forget x d = map_option (filter (\<lambda>b. fst b \<noteq> x)) d"

definition ienv_set :: "var \<Rightarrow> interval \<Rightarrow> ienv \<Rightarrow> ienv" where
  "ienv_set x i d =
     (case d of None \<Rightarrow> None
      | Some e \<Rightarrow>
          if i = Bot then None
          else if i = interval_top then Some (filter (\<lambda>b. fst b \<noteq> x) e)
          else Some ((x, i) # filter (\<lambda>b. fst b \<noteq> x) e))"

definition ienv_eval :: "ienv \<Rightarrow> linexp \<Rightarrow> interval" where
  "ienv_eval d e =
     foldl (\<lambda>r cx. interval_add r (interval_mul (interval_of_number (fst cx)) (ienv_get d (snd cx))))
       (interval_of_number (le_constant e)) (le_terms e)"

definition ienv_assign :: "var \<Rightarrow> linexp \<Rightarrow> ienv \<Rightarrow> ienv" where
  "ienv_assign x e d = ienv_set x (ienv_eval d e) d"

definition ienv_leq :: "ienv \<Rightarrow> ienv \<Rightarrow> bool" where
  "ienv_leq d1 d2 =
     (case d1 of None \<Rightarrow> True
      | Some e1 \<Rightarrow>
          (case d2 of None \<Rightarrow> False
           | Some e2 \<Rightarrow> list_all (\<lambda>b. interval_leq (ienv_get d1 (fst b)) (ienv_get d2 (fst b))) e2))"

definition ienv_join :: "ienv \<Rightarrow> ienv \<Rightarrow> ienv" where
  "ienv_join d1 d2 =
     (case d1 of None \<Rightarrow> d2
      | Some e1 \<Rightarrow>
          (case d2 of None \<Rightarrow> d1
           | Some e2 \<Rightarrow>
               Some (filter (\<lambda>b. snd b \<noteq> interval_top)
                      (map (\<lambda>b. (fst b, interval_join (ienv_get d1 (fst b)) (ienv_get d2 (fst b))))
                         e1))))"

definition ienv_add_cst :: "lincst \<Rightarrow> ienv \<Rightarrow> ienv" where
  "ienv_add_cst c d =
     (let i = ienv_eval d (cst_expression c);
          feasible =
            (case cst_kind c of
               EQUALITY \<Rightarrow> \<not> interval_is_bottom (interval_meet i (interval_of_number 0))
             | DISEQUATION \<Rightarrow> i \<noteq> interval_of_number 0 \<and> i \<noteq> Bot
             | INEQUALITY \<Rightarrow> \<not> interval_is_bottom (interval_meet i (Range MInf (Fin 0)))
             | STRICT_INEQUALITY \<Rightarrow> \<not> interval_is_bottom (interval_meet i (Range MInf (Fin (- 1)))))
      in if feasible then d else None)"

definition ienv_dom :: "ienv numdom" where
  "ienv_dom = \<lparr> nd_is_bottom = (\<lambda>d. d = None),
      nd_is_top = (\<lambda>d. d = Some []),
      nd_leq = ienv_leq,
      nd_join = ienv_join,
      nd_assign = ienv_assign,
      nd_forget = ienv_forget,
      nd_get = ienv_get,
      nd_add_cst = ienv_add_cst,
      nd_assign_bool_cst = (\<lambda>x c. ienv_forget x),
      nd_assign_bool_var = (\<lambda>x y neg. ienv_forget x),
      nd_pointer_mk_null = (\<lambda>x. ienv_forget x),
      nd_pointer_assign = (\<lambda>x y off. ienv_forget x) \<rparr>"

definition x_var :: var where
  "x_var = \<lparr> v_name = ProgVar 1, v_type = INT_TYPE, v_bitwidth = 32 \<rparr>"

definition a_var :: var where
  "a_var = \<lparr> v_name = ProgVar 0, v_type = ARR_INT_TYPE, v_bitwidth = 0 \<rparr>"

definition x_le_10 :: lincst where
  "x_le_10 = mk_cst \<lparr> le_constant = - 10, le_terms = [(1, x_var)] \<rparr> INEQUALITY"

definition x_eq_3 :: lincst where
  "x_eq_3 = mk_cst \<lparr> le_constant = - 3, le_terms = [(1, x_var)] \<rparr> EQUALITY"

definition zero_le_0 :: lincst where
  "zero_le_0 = mk_cst (exp_of_number 0) INEQUALITY"

definition one_le_0 :: lincst where
  "one_le_0 = mk_cst (exp_of_number 1) INEQUALITY"

definition x_in_1_5 :: ienv where
  "x_in_1_5 = Some [(x_var, Range (Fin 1) (Fin 5))]"

definition x_is_3 :: ienv where
  "x_is_3 = Some [(x_var, Range (Fin 3) (Fin 3))]"

definition a_is_0 :: ienv where
  "a_is_0 = Some [(a_var, Range (Fin 0) (Fin 0))]"

definition lhs_var :: var where
  "lhs_var = \<lparr> v_name = ProgVar 2, v_type = INT_TYPE, v_bitwidth = 32 \<rparr>"

definition ae_top :: "ienv ae_state" where
  "ae_top = \<lparr> ae_array_map = (\<lambda>a. []), ae_inv = Some [], ae_index_map = [], ae_warnings = [] \<rparr>"

definition ae_x5 :: "ienv ae_state" where
  "ae_x5 = \<lparr> ae_array_map = (\<lambda>a. []), ae_inv = Some [(x_var, Range (Fin 5) (Fin 5))],
             ae_index_map = [], ae_warnings = [] \<rparr>"

definition y_var :: var where
  "y_var = \<lparr> v_name = ProgVar 3, v_type = INT_TYPE, v_bitwidth = 32 \<rparr>"

definition ae_lhs5_y48 :: "ienv ae_state" where
  "ae_lhs5_y48 = \<lparr> ae_array_map = (\<lambda>a. []),
      ae_inv = Some [(lhs_var, Range (Fin 5) (Fin 5)), (y_var, Range (Fin 4) (Fin 8))],
      ae_index_map = [], ae_warnings = [] \<rparr>"

definition cell04 :: cell where
  "cell04 = \<lparr> c_offset = 0, c_size = 4,
      c_scalar = Some \<lparr> v_name = KeyVar 0, v_type = INT_TYPE, v_bitwidth = 4 \<rparr> \<rparr>"

text \<open>
  A state whose array \<open>a_var\<close> has one cell, 4 bytes at offset 6 with scalar \<open>k0_var\<close>, and the
  cell that a store of 4 bytes at offset 8 creates.
\<close>

definition k0_var :: var where
  "k0_var = \<lparr> v_name = KeyVar 0, v_type = INT_TYPE, v_bitwidth = 4 \<rparr>"

definition k1_var :: var where
  "k1_var = \<lparr> v_name = KeyVar 1, v_type = INT_TYPE, v_bitwidth = 4 \<rparr>"

definition cell64 :: cell where
  "cell64 = \<lparr> c_offset = 6, c_size = 4, c_scalar = Some k0_var \<rparr>"

definition cell84 :: cell where
  "cell84 = \<lparr> c_offset = 8, c_size = 4, c_scalar = Some k1_var \<rparr>"

definition ae_cell64 :: "ienv ae_state" where
  "ae_cell64 = \<lparr> ae_array_map = (\<lambda>a. if a = a_var then [(6, [cell64])] else []),
      ae_inv = Some [(k0_var, Range (Fin 1) (Fin 1))],
      ae_index_map = [((ProgVar 0, 6, 4), 0)], ae_warnings = [] \<rparr>"

definition ae_cell84 :: "ienv ae_state" where
  "ae_cell84 = ae_cell64\<lparr> ae_inv := Some [(k1_var, Range (Fin 7) (Fin 7))],
      ae_array_map := (ae_array_map ae_cell64)(a_var := [(8, [cell84])]),
      ae_index_map := [((ProgVar 0, 6, 4), 0), ((ProgVar 0, 8, 4), 1)] \<rparr>"

subsection \<open>An instance of the graph algorithms\<close>

text \<open>
  Modelled from the spec: \<open>ex_ops\<close> is an instance of the algorithms of \<open>GraphOps\<close>, which are
  not part of the sources, used where the theorems are applied to concrete values. The two
  readings of the graph's \<open>is_empty()\<close> are \<open>no_vertex\<close> and \<open>no_edge\<close>. The meet of two
  permuted views has the vertices of the views and, on every edge, the minimum of the
  weights that the views have there; it is marked not closed. Potentials are selected by
  relaxing every edge once per vertex from the given potentials, and are feasible if no edge
  can be relaxed further. A closure emits, from each of its source vertices, the edge
  \<open>u \<rightarrow> w\<close> for every path \<open>u \<rightarrow> v \<rightarrow> w\<close> where the graph has no edge \<open>u \<rightarrow> w\<close>: these are
  all the paths of the graphs below. A delta is applied by min-combining each of its
  edges. Potential repair always succeeds.
\<close>

definition g_edges :: "wgraph \<Rightarrow> (vert_id \<times> vert_id) list" where
  "g_edges g = concat (map (\<lambda>u. map (\<lambda>v. (u, v)) (g_succs g u)) (g_verts g))"

definition no_vertex :: "wgraph \<Rightarrow> bool" where
  "no_vertex g = (g_verts g = [])"

definition no_edge :: "wgraph \<Rightarrow> bool" where
  "no_edge g = (g_edges g = [])"

definition perm_edge :: "gr_perm \<Rightarrow> vert_id \<Rightarrow> vert_id \<Rightarrow> Wt option" where
  "perm_edge gp u v =
     (if u < length (fst gp) \<and> v < length (fst gp) \<and> 0 \<le> fst gp ! u \<and> 0 \<le> fst gp ! v
      then g_edge (snd gp) (nat (fst gp ! u)) (nat (fst gp ! v)) else None)"

definition min_edge :: "Wt option \<Rightarrow> Wt option \<Rightarrow> Wt option" where
  "min_edge a b =
     (case a of None \<Rightarrow> b
      | Some x \<Rightarrow> (case b of None \<Rightarrow> Some x | Some y \<Rightarrow> Some (min x y)))"

definition ex_meet :: "gr_perm \<Rightarrow> gr_perm \<Rightarrow> wgraph \<times> bool" where
  "ex_meet gx gy =
     (\<lparr> g_edge = (\<lambda>u v. min_edge (perm_edge gx u v) (perm_edge gy u v)),
        g_is_free = replicate (length (fst gx)) False, g_free_id = [] \<rparr>, False)"

definition ex_relax :: "wgraph \<Rightarrow> Wt list \<Rightarrow> vert_id \<times> vert_id \<Rightarrow> Wt list" where
  "ex_relax g pi e =
     (if pi ! fst e + g_edge_val g (fst e) (snd e) < pi ! snd e
      then pi[snd e := pi ! fst e + g_edge_val g (fst e) (snd e)] else pi)"

definition ex_round :: "wgraph \<Rightarrow> Wt list \<Rightarrow> Wt list" where
  "ex_round g pi = foldl (ex_relax g) pi (g_edges g)"

definition ex_select_potentials :: "wgraph \<Rightarrow> Wt list \<Rightarrow> bool \<times> Wt list" where
  "ex_select_potentials g pi =
     (let pi' = (ex_round g ^^ length pi) pi
      in (list_all (\<lambda>e. pi' ! snd e \<le> pi' ! fst e + g_edge_val g (fst e) (snd e)) (g_edges g),
          pi'))"

definition two_step :: "wgraph \<Rightarrow> vert_id \<Rightarrow> edge_vector" where
  "two_step g u =
     concat (map (\<lambda>v. map (\<lambda>w. ((u, w), g_edge_val g u v + g_edge_val g v w))
                        (filter (\<lambda>w. w \<noteq> u \<and> \<not> g_elem g u w) (g_succs g v)))
               (g_succs g u))"

definition ex_apply_delta :: "wgraph \<Rightarrow> edge_vector \<Rightarrow> bool \<Rightarrow> wgraph" where
  "ex_apply_delta g delta b =
     foldl (\<lambda>h e. g_update_edge h (fst (fst e)) (snd e) (snd (fst e)) Wt_min) g delta"

definition ex_ops :: gr_ops where
  "ex_ops = \<lparr> go_widen = (\<lambda>gx gy. (snd gx, [])),
      go_meet = ex_meet,
      go_select_potentials = ex_select_potentials,
      go_close_after_meet = (\<lambda>g pi gx gy. concat (map (two_step g) (g_verts g))),
      go_close_johnson = (\<lambda>g pi. concat (map (two_step g) (g_verts g))),
      go_close_after_widen = (\<lambda>g pi U. concat (map (two_step g) (filter (\<lambda>u. u \<in> U) (g_verts g)))),
      go_apply_delta = ex_apply_delta,
      go_repair_potential = (\<lambda>g pi u v. (True, pi)) \<rparr>"

text \<open>
  Values over the one variable 7 on the vertices 0 and 1: \<open>x_le k\<close> holds \<open>x \<le> k\<close> as the edge
  \<open>1 \<rightarrow> 0\<close> of weight \<open>2k\<close>, \<open>x_ge k\<close> holds \<open>x \<ge> k\<close> as the edge \<open>0 \<rightarrow> 1\<close> of weight \<open>-2k\<close>;
  each comes with potentials valid for its edge. \<open>both_graph l u\<close> is the edge-wise minimum
  of the graphs of two such values.
\<close>

definition upper_graph :: "Wt \<Rightarrow> wgraph" where
  "upper_graph w = \<lparr> g_edge = (\<lambda>u v. if u = 1 \<and> v = 0 then Some w else None),
      g_is_free = [False, False], g_free_id = [] \<rparr>"

definition lower_graph :: "Wt \<Rightarrow> wgraph" where
  "lower_graph w = \<lparr> g_edge = (\<lambda>u v. if u = 0 \<and> v = 1 then Some w else None),
      g_is_free = [False, False], g_free_id = [] \<rparr>"

definition x_le :: "int \<Rightarrow> nat soct" where
  "x_le k = \<lparr> vert_map = [(7, (0, 1))], rev_map = [Some 7, Some 7],
      graph = upper_graph (2 * k), potential = [0, 0], unstable = {}, is_bottom_flag = False \<rparr>"

definition x_ge :: "int \<Rightarrow> nat soct" where
  "x_ge k = \<lparr> vert_map = [(7, (0, 1))], rev_map = [Some 7, Some 7],
      graph = lower_graph (- 2 * k), potential = [2 * k, 0], unstable = {}, is_bottom_flag = False \<rparr>"

definition both_graph :: "Wt \<Rightarrow> Wt \<Rightarrow> wgraph" where
  "both_graph l u = \<lparr> g_edge = (\<lambda>a b. min_edge (perm_edge ([0, 1], upper_graph u) a b)
                                           (perm_edge ([0, 1], lower_graph l) a b)),
      g_is_free = [False, False], g_free_id = [] \<rparr>"

text \<open>
  \<open>graph_of es n\<close> is the graph on \<open>n\<close> vertices with the edges of the list \<open>es\<close>. \<open>chain\<close> is
  a value over three variables with \<open>y - x \<le> 1\<close> and \<open>z - y \<le> 1\<close> as the edges \<open>0 \<rightarrow> 2\<close> and
  \<open>2 \<rightarrow> 4\<close>, without their mirror edges, in which the vertices 0 and 5 are unstable.
  \<open>lone\<close> is a value over two variables with the single edge \<open>0 \<rightarrow> 2\<close> and no unstable vertex.
\<close>

definition graph_of :: "edge_vector \<Rightarrow> nat \<Rightarrow> wgraph" where
  "graph_of es n = \<lparr> g_edge = (\<lambda>u v. map_of es (u, v)), g_is_free = replicate n False,
      g_free_id = [] \<rparr>"

definition chain :: "nat soct" where
  "chain = \<lparr> vert_map = [(0, (0, 1)), (1, (2, 3)), (2, (4, 5))],
      rev_map = [Some 0, Some 0, Some 1, Some 1, Some 2, Some 2],
      graph = graph_of [((0, 2), 1), ((2, 4), 1)] 6, potential = [0, 0, 0, 0, 0, 0],
      unstable = {0, 5}, is_bottom_flag = False \<rparr>"


text \<open>A number class whose remainder fails on the divisor zero.\<close>

definition raise_on_zero :: "int \<Rightarrow> error + int" where
  "raise_on_zero x = Inl DivisionByZero"

section \<open>Properties of get_vert\<close>

lemma vmap_find_insert_fresh:
  "map_of m k = None \<Longrightarrow> map_of (vmap_insert k p m) k = Some p"
  by (induction m) (auto split: if_splits)

lemma vert_map_install_vert [simp]: "vert_map (install_vert x v s) = vert_map s"
  by (simp add: install_vert_def)

text \<open>
  C9. When the variable is not yet mapped and the two freshly allocated vertex identifiers
  satisfy \<open>vert_pos > vert_neg\<close>, the swap block leaves both names equal to the smaller
  identifier: \<open>get_vert\<close> returns it and binds the variable to a pair with two equal
  components, so the second component is not the first plus one.
\<close>

theorem get_vert_swap_defect:
  assumes "vmap_find (vert_map s) x = None"
    and "new_vertex (graph s) = (p, g1)"
    and "new_vertex g1 = (n, g2)"
    and "p > n"
  shows "fst (get_vert x s) = n
       \<and> vmap_find (vert_map (snd (get_vert x s))) x = Some (n, n)
       \<and> swap_block (p, n) = (n, n)
       \<and> snd (the (vmap_find (vert_map (snd (get_vert x s))) x))
           \<noteq> fst (the (vmap_find (vert_map (snd (get_vert x s))) x)) + 1"
proof -
  have sw: "swap_block (p, n) = (n, n)"
    using assms(4) by (simp add: swap_block_def Let_def)
  have none: "map_of (vert_map s) x = None"
    using assms(1) by (simp add: vmap_find_def)
  have r: "get_vert x s =
      (n, install_vert x n (install_vert x n
            (s\<lparr> graph := g2, vert_map := vmap_insert x (n, n) (vert_map s) \<rparr>)))"
    using assms(1,2,3) sw by (simp add: get_vert_def Let_def)
  have m: "vmap_find (vert_map (snd (get_vert x s))) x = Some (n, n)"
    by (simp add: r vmap_find_def vmap_find_insert_fresh [OF none])
  show ?thesis
    using sw m by (simp add: r)
qed

theorem get_vert_swap_defect_witness:
  "fst (get_vert (7::nat) freed_state) = 0
   \<and> vmap_find (vert_map (snd (get_vert 7 freed_state))) 7 = Some (0, 0)"
proof -
  have a: "vmap_find (vert_map freed_state) (7::nat) = None"
    by (simp add: freed_state_def vmap_find_def)
  have b: "new_vertex (graph freed_state)
      = (1, \<lparr> g_edge = (\<lambda>u v. None), g_is_free = [True, False], g_free_id = [0] \<rparr>)"
    by (simp add: freed_state_def new_vertex_def Let_def)
  have c: "new_vertex \<lparr> g_edge = (\<lambda>u v. None), g_is_free = [True, False], g_free_id = [0] \<rparr>
      = (0, \<lparr> g_edge = (\<lambda>u v. None), g_is_free = [False, False], g_free_id = [] \<rparr>)"
    by (simp add: new_vertex_def Let_def)
  have d: "(1::nat) > 0" by simp
  show ?thesis
    using get_vert_swap_defect [OF a b c d] by simp
qed

section \<open>Properties of the split-octagon operations\<close>

lemma normalize_two_vert_state: "normalize G P two_vert_state = two_vert_state"
  by (simp add: two_vert_state_def g_verts_def g_succs_def upt_rec normalize_def)

lemma after_set_eq:
  "after_set = \<lparr> vert_map = [(7, (0, 0))], rev_map = [Some 7, None],
     graph = \<lparr> g_edge = ((\<lambda>u v. None)(Suc 0 := (\<lambda>v. None)(0 \<mapsto> 10), 0 := (\<lambda>v. None)(Suc 0 \<mapsto> - 2))),
               g_is_free = [False, False], g_free_id = [] \<rparr>,
     potential = [1, - 1], unstable = {}, is_bottom_flag = False \<rparr>"
  unfolding after_set_def soct_set_def soct_forget_def
  apply (simp add: normalize_two_vert_state is_bottom_def)
  apply (simp add: two_vert_state_def vmap_find_def interval_is_top_def g_forget_def vmap_erase_def
      get_vert_def new_vertex_def swap_block_def install_vert_def Let_def set_ub_def set_lb_def g_set_edge_def)
  apply (auto simp: fun_eq_iff)
  done

text \<open>
  C5 (as amended). On a bottom value the interval query \<open>operator[]\<close> returns the bottom
  interval; an unmapped variable yields top; for a variable mapped to the pair
  \<open>(vp, vn)\<close> the result is the interval the spec describes, read from the edges between
  \<open>vp\<close> and \<open>vp + 1\<close>: the second component of the pair is not consulted.
\<close>

theorem get_interval_query:
  "(is_bottom s \<longrightarrow> soct_get s x = interval_bottom)
   \<and> (\<not> is_bottom s \<and> vmap_find (vert_map s) x = None \<longrightarrow> soct_get s x = interval_top)
   \<and> (\<not> is_bottom s \<and> vmap_find (vert_map s) x = Some (vp, vn) \<longrightarrow>
        soct_get s x = spec_interval (graph s) vp (vp + 1))"
  by (auto simp: soct_get_def get_interval_def spec_interval_def g_lookup_def g_elem_def
      g_edge_val_def split: option.splits)

text \<open>
  After \<open>set(x, [1, 5])\<close> the variable is bound to the pair \<open>(0, 0)\<close> and its bounds are
  stored on the edges between 0 and 1. The query returns \<open>[1, 5]\<close>, whereas the interval
  read from the edges between the two components of the pair is top.
\<close>

theorem get_interval_pair_counterexample:
  "\<not> is_bottom after_set
   \<and> vmap_find (vert_map after_set) 7 = Some (0, 0)
   \<and> soct_get after_set 7 = Range (Fin 1) (Fin 5)
   \<and> spec_interval (graph after_set) 0 0 = Range MInf PInf
   \<and> soct_get after_set 7 \<noteq> spec_interval (graph after_set) 0 0"
  by (simp add: after_set_eq is_bottom_def vmap_find_def soct_get_def get_interval_def
      spec_interval_def g_lookup_def g_elem_def g_edge_val_def mk_interval_def num_div_def
      signed_divide_int_def)

theorem get_interval_query_witness:
  "\<not> is_bottom after_set \<and> vmap_find (vert_map after_set) 7 = Some (0, 0)
   \<and> soct_get after_set 7 = spec_interval (graph after_set) 0 1
   \<and> is_bottom (soct_bottom :: nat soct) \<and> soct_get (soct_bottom :: nat soct) 7 = interval_bottom
   \<and> \<not> is_bottom two_vert_state \<and> vmap_find (vert_map two_vert_state) 3 = None
   \<and> soct_get two_vert_state 3 = interval_top"
proof -
  have a: "\<not> is_bottom after_set \<and> vmap_find (vert_map after_set) 7 = Some (0, 0)"
    by (simp add: after_set_eq is_bottom_def vmap_find_def)
  have b: "is_bottom (soct_bottom :: nat soct)"
    by (simp add: soct_bottom_def is_bottom_def)
  have c: "\<not> is_bottom two_vert_state \<and> vmap_find (vert_map two_vert_state) 3 = None"
    by (simp add: two_vert_state_def is_bottom_def vmap_find_def)
  show ?thesis
    using a b c get_interval_query [of after_set 7 0 0]
      get_interval_query [of "soct_bottom :: nat soct" 7]
      get_interval_query [of two_vert_state 3]
    by simp
qed

text \<open>
  C10. \<open>widening_thresholds\<close> returns the plain widening of its two operands, whatever
  the thresholds are.
\<close>

theorem widening_thresholds_is_widening:
  "widening_thresholds G P s o1 ts = widening G P s o1"
  by (simp add: widening_thresholds_def)

text \<open>
  C3. The meet with a bottom operand is bottom. For two operands that are neither bottom
  nor top, both are normalized, the renaming loops give the common vertices with the
  potentials \<open>meet_pi\<close> and the two permuted views, \<open>GrOps::meet\<close> gives the graph \<open>meet_g\<close> of the
  views, and potentials are selected again on \<open>meet_g\<close> from \<open>meet_pi\<close>. If the selection finds
  them infeasible the meet is bottom. If it finds the potentials \<open>meet_pi'\<close> the meet is not
  bottom: it is the value over the common vertices with these potentials, no unstable
  vertex, and the graph \<open>meet_g\<close>, closed after the meet unless \<open>GrOps::meet\<close> reported it
  closed. In each case the operands are returned normalized. The graph's \<open>is_empty()\<close>
  behind \<open>is_top\<close> is the parameter \<open>E\<close>; a top operand gives the other operand.
\<close>

theorem meet_infeasible_bottom:
  fixes s o1 :: "'v::linorder soct"
  shows
  "(is_bottom s \<or> is_bottom o1 \<longrightarrow> meet G E P s o1 = (soct_bottom, s, o1))
   \<and> (\<not> is_bottom s \<and> \<not> is_bottom o1 \<and> is_top E s \<longrightarrow> meet G E P s o1 = (o1, s, o1))
   \<and> (\<not> is_bottom s \<and> \<not> is_bottom o1 \<and> \<not> is_top E s \<and> is_top E o1 \<longrightarrow>
        meet G E P s o1 = (s, s, o1))
   \<and> (\<not> is_bottom s \<and> \<not> is_bottom o1 \<and> \<not> is_top E s \<and> \<not> is_top E o1
      \<and> meet_renaming (normalize G P s) (normalize G P o1)
           = (meet_verts, meet_rev, meet_pi, perm_x, perm_y)
      \<and> go_meet G (perm_x, graph (normalize G P s)) (perm_y, graph (normalize G P o1))
           = (meet_g, is_closed)
      \<and> go_select_potentials G meet_g meet_pi = (feasible, meet_pi')
      \<longrightarrow> (\<not> feasible \<longrightarrow>
             meet G E P s o1 = (soct_bottom, normalize G P s, normalize G P o1))
        \<and> (feasible \<longrightarrow>
             meet G E P s o1
               = (\<lparr> vert_map = meet_verts, rev_map = meet_rev,
                     graph = (if is_closed then meet_g
                              else foldl meet_bounds_step
                                     (go_apply_delta G meet_g
                                        (if chrome_dijkstra P
                                         then go_close_after_meet G meet_g meet_pi'
                                                (perm_x, graph (normalize G P s))
                                                (perm_y, graph (normalize G P o1))
                                         else go_close_johnson G meet_g meet_pi') True)
                                     (if chrome_dijkstra P
                                      then go_close_after_meet G meet_g meet_pi'
                                             (perm_x, graph (normalize G P s))
                                             (perm_y, graph (normalize G P o1))
                                      else go_close_johnson G meet_g meet_pi')),
                     potential = meet_pi', unstable = {}, is_bottom_flag = False \<rparr>,
                  normalize G P s, normalize G P o1)
             \<and> \<not> is_bottom (fst (meet G E P s o1))
             \<and> fst (meet G E P s o1) \<noteq> soct_bottom))"
  by (auto simp: meet_def Let_def is_bottom_def soct_bottom_def split: prod.splits)

lemma upper_graph_facts:
  "g_verts (upper_graph w) = [0, 1]" "g_succs (upper_graph w) 0 = []"
  "g_succs (upper_graph w) (Suc 0) = [0]" "g_edges (upper_graph w) = [(1, 0)]"
  by (simp_all add: upper_graph_def g_verts_def g_succs_def g_edges_def upt_rec)

lemma lower_graph_facts:
  "g_verts (lower_graph w) = [0, 1]" "g_succs (lower_graph w) 0 = [1]"
  "g_succs (lower_graph w) (Suc 0) = []" "g_edges (lower_graph w) = [(0, 1)]"
  by (simp_all add: lower_graph_def g_verts_def g_succs_def g_edges_def upt_rec)

lemma perm_edge_id:
  "perm_edge ([0, 1], g) a b = (if a < 2 \<and> b < 2 then g_edge g a b else None)"
proof -
  have n: "\<And>k::nat. k < 2 \<Longrightarrow> ([0, 1] :: int list) ! k = int k"
    by (auto simp: less_2_cases_iff)
  show ?thesis
    by (simp add: perm_edge_def n)
qed

lemma both_graph_edge:
  "g_edge (both_graph l u) a b
     = (if a = 0 \<and> b = 1 then Some l else if a = 1 \<and> b = 0 then Some u else None)"
  by (simp add: both_graph_def perm_edge_id min_edge_def upper_graph_def lower_graph_def)

lemma both_graph_facts:
  "g_verts (both_graph l u) = [0, 1]" "g_succs (both_graph l u) 0 = [1]"
  "g_succs (both_graph l u) (Suc 0) = [0]" "g_edges (both_graph l u) = [(0, 1), (1, 0)]"
  "g_edge_val (both_graph l u) 0 (Suc 0) = l" "g_edge_val (both_graph l u) (Suc 0) 0 = u"
  "g_elem (both_graph l u) 0 (Suc 0)" "g_elem (both_graph l u) (Suc 0) 0"
proof -
  have f: "g_is_free (both_graph l u) = [False, False]"
    by (simp add: both_graph_def)
  show "g_verts (both_graph l u) = [0, 1]"
    by (simp add: g_verts_def f upt_rec)
  show s0: "g_succs (both_graph l u) 0 = [1]"
    by (simp add: g_succs_def f upt_rec both_graph_edge)
  show s1: "g_succs (both_graph l u) (Suc 0) = [0]"
    by (simp add: g_succs_def f upt_rec both_graph_edge)
  show "g_edges (both_graph l u) = [(0, 1), (1, 0)]"
    by (simp add: g_edges_def g_verts_def f upt_rec s0 s1)
  show "g_edge_val (both_graph l u) 0 (Suc 0) = l" "g_edge_val (both_graph l u) (Suc 0) 0 = u"
    "g_elem (both_graph l u) 0 (Suc 0)" "g_elem (both_graph l u) (Suc 0) 0"
    by (simp_all add: g_edge_val_def g_elem_def both_graph_edge)
qed

lemma normalize_x_le: "normalize G P (x_le k) = x_le k"
  by (simp add: normalize_def x_le_def upper_graph_facts normalize_step_def)

lemma normalize_x_ge: "normalize G P (x_ge k) = x_ge k"
  by (simp add: normalize_def x_ge_def lower_graph_facts normalize_step_def)

lemma meet_renaming_x:
  "meet_renaming (x_le u) (x_ge l) = ([(7, (0, 1))], [Some 7, Some 7], [0, 0], [0, 1], [0, 1])"
  by (simp add: meet_renaming_def x_le_def x_ge_def meet_left_step_def meet_right_step_def
      vmap_find_def Let_def)

lemma ex_meet_x:
  "go_meet ex_ops ([0, 1], graph (x_le u)) ([0, 1], graph (x_ge l))
     = (both_graph (- 2 * l) (2 * u), False)"
  by (simp add: ex_ops_def ex_meet_def both_graph_def x_le_def x_ge_def)

lemma ex_round_both:
  "ex_round (both_graph l u) [a, b]
     = (if a + l < b then (if a + l + u < a then [a + l + u, a + l] else [a, a + l])
        else (if b + u < a then [b + u, b] else [a, b]))"
  by (simp add: ex_round_def both_graph_facts ex_relax_def)

lemma select_infeasible:
  "go_select_potentials ex_ops (both_graph (- 4) 2) [0, 0] = (False, [- 4, - 6])"
proof -
  have r: "(ex_round (both_graph (- 4) 2) ^^ length [0 :: int, 0]) [0, 0] = [- 4, - 6]"
    by (simp add: numeral_2_eq_2 ex_round_both)
  show ?thesis
    unfolding ex_ops_def ex_select_potentials_def Let_def gr_ops.simps r
    by (simp add: both_graph_facts)
qed

lemma select_feasible:
  "go_select_potentials ex_ops (both_graph (- 2) 10) [0, 0] = (True, [0, - 2])"
proof -
  have r: "(ex_round (both_graph (- 2) 10) ^^ length [0 :: int, 0]) [0, 0] = [0, - 2]"
    by (simp add: numeral_2_eq_2 ex_round_both)
  show ?thesis
    unfolding ex_ops_def ex_select_potentials_def Let_def gr_ops.simps r
    by (simp add: both_graph_facts)
qed

lemma close_both:
  "go_close_after_meet ex_ops (both_graph l u) pi gx gy = []"
  by (simp add: ex_ops_def both_graph_facts two_step_def)

lemma x_not_top:
  "\<not> is_bottom (x_le k)" "\<not> is_bottom (x_ge k)"
  "\<not> is_top no_vertex (x_le k)" "\<not> is_top no_vertex (x_ge k)"
  "\<not> is_top no_edge (x_le k)" "\<not> is_top no_edge (x_ge k)"
  by (simp_all add: is_bottom_def is_top_def no_vertex_def no_edge_def x_le_def x_ge_def
      upper_graph_facts lower_graph_facts)

text \<open>
  The theorem on values with edges, for either reading of \<open>is_empty()\<close>: the meet of
  \<open>x \<le> 1\<close> and \<open>x \<ge> 2\<close> has the negative cycle \<open>0 \<rightarrow> 1 \<rightarrow> 0\<close> of weight \<open>-2\<close> and is bottom;
  the meet of \<open>x \<le> 5\<close> and \<open>x \<ge> 1\<close> is feasible, gets the selected potentials and gives \<open>x\<close>
  the interval \<open>[1, 5]\<close>; the meet of bottom and \<open>x \<ge> 1\<close> is bottom, the meet of top and a
  value is that value.
\<close>

theorem meet_infeasible_bottom_witness:
  "\<not> is_bottom (x_le 1) \<and> \<not> is_bottom (x_ge 2) \<and> \<not> is_bottom (x_le 5) \<and> \<not> is_bottom (x_ge 1)
   \<and> \<not> is_top no_vertex (x_le 1) \<and> \<not> is_top no_vertex (x_ge 2)
   \<and> \<not> is_top no_edge (x_le 5) \<and> \<not> is_top no_edge (x_ge 1)
   \<and> soct_get (x_le 1) 7 = Range MInf (Fin 1) \<and> soct_get (x_ge 2) 7 = Range (Fin 2) PInf
   \<and> soct_get (x_le 5) 7 = Range MInf (Fin 5) \<and> soct_get (x_ge 1) 7 = Range (Fin 1) PInf
   \<and> go_select_potentials ex_ops (both_graph (- 4) 2) [0, 0] = (False, [- 4, - 6])
   \<and> meet ex_ops no_vertex DefaultParams (x_le 1) (x_ge 2) = (soct_bottom, x_le 1, x_ge 2)
   \<and> go_select_potentials ex_ops (both_graph (- 2) 10) [0, 0] = (True, [0, - 2])
   \<and> meet ex_ops no_edge DefaultParams (x_le 5) (x_ge 1)
       = (\<lparr> vert_map = [(7, (0, 1))], rev_map = [Some 7, Some 7], graph = both_graph (- 2) 10,
             potential = [0, - 2], unstable = {}, is_bottom_flag = False \<rparr>, x_le 5, x_ge 1)
   \<and> soct_get (fst (meet ex_ops no_edge DefaultParams (x_le 5) (x_ge 1))) 7
       = Range (Fin 1) (Fin 5)
   \<and> meet ex_ops no_edge DefaultParams (soct_bottom :: nat soct) (x_ge 1)
       = (soct_bottom, soct_bottom, x_ge 1)
   \<and> is_top no_vertex (soct_top :: nat soct) \<and> is_top no_edge (soct_top :: nat soct)
   \<and> meet ex_ops no_vertex DefaultParams soct_top (x_ge 1) = (x_ge 1, soct_top, x_ge 1)
   \<and> meet ex_ops no_edge DefaultParams (x_le 5) soct_top = (x_le 5, x_le 5, soct_top)"
proof -
  have i: "soct_get (x_le 1) 7 = Range MInf (Fin 1)" "soct_get (x_ge 2) 7 = Range (Fin 2) PInf"
    "soct_get (x_le 5) 7 = Range MInf (Fin 5)" "soct_get (x_ge 1) 7 = Range (Fin 1) PInf"
    by (simp_all add: soct_get_def is_bottom_def get_interval_def x_le_def x_ge_def vmap_find_def
        upper_graph_def lower_graph_def g_elem_def g_edge_val_def mk_interval_def num_div_def)
  have h1: "\<not> is_bottom (x_le 1) \<and> \<not> is_bottom (x_ge 2)
      \<and> \<not> is_top no_vertex (x_le 1) \<and> \<not> is_top no_vertex (x_ge 2)
      \<and> meet_renaming (normalize ex_ops DefaultParams (x_le 1))
            (normalize ex_ops DefaultParams (x_ge 2))
           = ([(7, (0, 1))], [Some 7, Some 7], [0, 0], [0, 1], [0, 1])
      \<and> go_meet ex_ops ([0, 1], graph (normalize ex_ops DefaultParams (x_le 1)))
            ([0, 1], graph (normalize ex_ops DefaultParams (x_ge 2)))
           = (both_graph (- 4) 2, False)
      \<and> go_select_potentials ex_ops (both_graph (- 4) 2) [0, 0] = (False, [- 4, - 6])"
    using meet_renaming_x [of 1 2] ex_meet_x [of 1 2]
    by (simp add: x_not_top normalize_x_le normalize_x_ge select_infeasible)
  have 1: "meet ex_ops no_vertex DefaultParams (x_le 1) (x_ge 2) = (soct_bottom, x_le 1, x_ge 2)"
    using meet_infeasible_bottom [where G = ex_ops and E = no_vertex and P = DefaultParams
        and s = "x_le 1" and ?o1.0 = "x_ge 2" and feasible = False
        and meet_g = "both_graph (- 4) 2" and is_closed = False and meet_pi' = "[- 4, - 6]"
        and meet_pi = "[0, 0]" and perm_x = "[0, 1]" and perm_y = "[0, 1]"
        and meet_verts = "[(7, (0, 1))]" and meet_rev = "[Some 7, Some 7]",
        THEN conjunct2, THEN conjunct2, THEN conjunct2, THEN mp, OF h1, THEN conjunct1]
    by (simp add: normalize_x_le normalize_x_ge)
  have h2: "\<not> is_bottom (x_le 5) \<and> \<not> is_bottom (x_ge 1)
      \<and> \<not> is_top no_edge (x_le 5) \<and> \<not> is_top no_edge (x_ge 1)
      \<and> meet_renaming (normalize ex_ops DefaultParams (x_le 5))
            (normalize ex_ops DefaultParams (x_ge 1))
           = ([(7, (0, 1))], [Some 7, Some 7], [0, 0], [0, 1], [0, 1])
      \<and> go_meet ex_ops ([0, 1], graph (normalize ex_ops DefaultParams (x_le 5)))
            ([0, 1], graph (normalize ex_ops DefaultParams (x_ge 1)))
           = (both_graph (- 2) 10, False)
      \<and> go_select_potentials ex_ops (both_graph (- 2) 10) [0, 0] = (True, [0, - 2])"
    using meet_renaming_x [of 5 1] ex_meet_x [of 5 1]
    by (simp add: x_not_top normalize_x_le normalize_x_ge select_feasible)
  have d: "go_apply_delta ex_ops g [] True = g" for g
    by (simp add: ex_ops_def ex_apply_delta_def)
  have 2: "meet ex_ops no_edge DefaultParams (x_le 5) (x_ge 1)
       = (\<lparr> vert_map = [(7, (0, 1))], rev_map = [Some 7, Some 7], graph = both_graph (- 2) 10,
             potential = [0, - 2], unstable = {}, is_bottom_flag = False \<rparr>, x_le 5, x_ge 1)"
    using meet_infeasible_bottom [where G = ex_ops and E = no_edge and P = DefaultParams
        and s = "x_le 5" and ?o1.0 = "x_ge 1" and feasible = True
        and meet_g = "both_graph (- 2) 10" and is_closed = False and meet_pi' = "[0, - 2]"
        and meet_pi = "[0, 0]" and perm_x = "[0, 1]" and perm_y = "[0, 1]"
        and meet_verts = "[(7, (0, 1))]" and meet_rev = "[Some 7, Some 7]",
        THEN conjunct2, THEN conjunct2, THEN conjunct2, THEN mp, OF h2, THEN conjunct2,
        THEN mp, OF TrueI, THEN conjunct1]
    by (simp add: normalize_x_le normalize_x_ge close_both d DefaultParams_def)
  have 3: "soct_get (fst (meet ex_ops no_edge DefaultParams (x_le 5) (x_ge 1))) 7
       = Range (Fin 1) (Fin 5)"
    unfolding 2
    by (simp add: soct_get_def is_bottom_def get_interval_def vmap_find_def both_graph_facts
        mk_interval_def num_div_def)
  have 4: "meet ex_ops no_edge DefaultParams (soct_bottom :: nat soct) (x_ge 1)
       = (soct_bottom, soct_bottom, x_ge 1)"
    by (rule meet_infeasible_bottom [where G = ex_ops and E = no_edge and P = DefaultParams,
          THEN conjunct1, rule_format]) (simp add: is_bottom_def soct_bottom_def)
  have tp: "is_top no_vertex (soct_top :: nat soct)" "is_top no_edge (soct_top :: nat soct)"
    "\<not> is_bottom (soct_top :: nat soct)"
    by (simp_all add: is_top_def is_bottom_def soct_top_def no_vertex_def no_edge_def
        empty_graph_def g_verts_def g_edges_def)
  have 5: "meet ex_ops no_vertex DefaultParams soct_top (x_ge 1) = (x_ge 1, soct_top, x_ge 1)"
    by (rule meet_infeasible_bottom [where G = ex_ops and E = no_vertex and P = DefaultParams,
          THEN conjunct2, THEN conjunct1, rule_format]) (simp add: tp x_not_top)
  have 6: "meet ex_ops no_edge DefaultParams (x_le 5) soct_top = (x_le 5, x_le 5, soct_top)"
    by (rule meet_infeasible_bottom [where G = ex_ops and E = no_edge and P = DefaultParams,
          THEN conjunct2, THEN conjunct2, THEN conjunct1, rule_format])
      (simp add: tp x_not_top)
  show ?thesis
    by (intro conjI) (rule x_not_top i select_infeasible select_feasible 1 2 3 4 tp 5 6)+
qed

lemma bound_le_refl [simp]: "bound_le b b"
  by (cases b) auto

lemma bound_le_PInf [simp]: "bound_le b PInf"
  by (cases b) auto

lemma bound_le_total: "bound_le a b \<or> bound_le b a"
  by (cases a; cases b) auto

lemma interval_leq_join_left: "interval_leq i (interval_join i j)"
  using bound_le_total by (cases i; cases j) (auto simp: bound_min_def bound_max_def)

lemma interval_leq_join_right: "interval_leq j (interval_join i j)"
  using bound_le_total by (cases i; cases j) (auto simp: bound_min_def bound_max_def)

lemma interval_leq_refl [simp]: "interval_leq i i"
  by (cases i) auto

lemma interval_leq_top [simp]: "interval_leq i interval_top"
  by (cases i) (auto simp: interval_top_def)

lemma ienv_leq_refl: "ienv_leq d d"
  by (auto simp: ienv_leq_def list_all_iff split: option.splits)

lemma map_of_keyed:
  "map_of (filter (\<lambda>b. snd b \<noteq> t) (map (\<lambda>b. (fst b, f (fst b))) e)) v
     = (if v \<in> fst ` set e \<and> f v \<noteq> t then Some (f v) else None)"
  by (induction e) auto

lemma ienv_get_join:
  "ienv_get (ienv_join (Some e1) (Some e2)) v
     = (if v \<in> fst ` set e1 then interval_join (ienv_get (Some e1) v) (ienv_get (Some e2) v)
        else interval_top)"
  using map_of_keyed [of interval_top
      "\<lambda>k. interval_join (ienv_get (Some e1) k) (ienv_get (Some e2) k)" e1 v]
  by (auto simp: ienv_join_def ienv_get_def [of "Some (filter _ _)"])

lemma ienv_join_upper: "ienv_leq x (ienv_join x y) \<and> ienv_leq y (ienv_join x y)"
proof (cases x)
  case None
  then show ?thesis by (simp add: ienv_join_def ienv_leq_refl) (simp add: ienv_leq_def)
next
  case (Some e1)
  note x = this
  show ?thesis
  proof (cases y)
    case None
    then show ?thesis using x by (simp add: ienv_join_def ienv_leq_refl) (simp add: ienv_leq_def)
  next
    case (Some e2)
    obtain ej where ej: "ienv_join (Some e1) (Some e2) = Some ej"
      by (simp add: ienv_join_def)
    have keys: "\<And>b. b \<in> set ej \<Longrightarrow> fst b \<in> fst ` set e1"
      using ej by (force simp: ienv_join_def)
    have g: "\<And>b. b \<in> set ej \<Longrightarrow> ienv_get (Some ej) (fst b)
        = interval_join (ienv_get (Some e1) (fst b)) (ienv_get (Some e2) (fst b))"
      using keys ienv_get_join [of e1 e2] by (simp add: ej)
    have "ienv_leq (Some e1) (Some ej)"
      by (simp add: ienv_leq_def list_all_iff g interval_leq_join_left)
    moreover have "ienv_leq (Some e2) (Some ej)"
      by (simp add: ienv_leq_def list_all_iff g interval_leq_join_right)
    ultimately show ?thesis using x Some ej by simp
  qed
qed

section \<open>Properties of the domain traits and of array smashing\<close>

text \<open>
  C2. \<open>entail\<close> returns true at once on a bottom value or a tautology and false on a
  contradiction. Otherwise, for a constraint that is not an equality, it returns true
  exactly when the value with the negated constraint added is bottom. An equality is
  first lowered to its two inequalities and each is checked in that way, so no negated
  constraint is a disequality.
\<close>

theorem entail_by_negation:
  "(nd_is_bottom D inv0 \<longrightarrow> entail D inv0 cst)
   \<and> (\<not> nd_is_bottom D inv0 \<and> cst_is_tautology cst \<longrightarrow> entail D inv0 cst)
   \<and> (\<not> nd_is_bottom D inv0 \<and> \<not> cst_is_tautology cst \<and> cst_is_contradiction cst
        \<longrightarrow> \<not> entail D inv0 cst)
   \<and> (\<not> nd_is_bottom D inv0 \<and> \<not> cst_is_tautology cst \<and> \<not> cst_is_contradiction cst
      \<and> \<not> cst_is_equality cst
        \<longrightarrow> entail D inv0 cst = nd_is_bottom D (nd_add_cst D (cst_negate cst) inv0)
          \<and> cst_kind (cst_negate cst) \<noteq> DISEQUATION)
   \<and> (\<not> nd_is_bottom D inv0 \<and> \<not> cst_is_tautology cst \<and> \<not> cst_is_contradiction cst
      \<and> cst_is_equality cst
        \<longrightarrow> lower_equality cst []
              = [mk_cst (cst_expression cst) INEQUALITY,
                 mk_cst (exp_scale (- 1) (cst_expression cst)) INEQUALITY]
          \<and> entail D inv0 cst
              = (\<forall>c \<in> set (lower_equality cst []).
                   nd_is_bottom D (nd_add_cst D (cst_negate c) inv0))
          \<and> (\<forall>c \<in> set (lower_equality cst []). cst_kind (cst_negate c) \<noteq> DISEQUATION))"
  by (auto simp: entail_def entailment_def entail_all_of_def lower_equality_def Let_def
      cst_negate_def mk_cst_def cst_is_equality_def split: cst_kind.splits)

lemma ienv_eval_simps:
  "ienv_eval d \<lparr> le_constant = k, le_terms = [] \<rparr> = interval_of_number k"
  "ienv_eval d \<lparr> le_constant = k, le_terms = [(c, x)] \<rparr>
     = interval_add (interval_of_number k) (interval_mul (interval_of_number c) (ienv_get d x))"
  by (simp_all add: ienv_eval_def)

theorem entail_by_negation_witness:
  "nd_is_bottom ienv_dom None \<and> entail ienv_dom None x_le_10
   \<and> \<not> nd_is_bottom ienv_dom x_in_1_5 \<and> cst_is_tautology zero_le_0
   \<and> entail ienv_dom x_in_1_5 zero_le_0
   \<and> \<not> cst_is_tautology one_le_0 \<and> cst_is_contradiction one_le_0
   \<and> \<not> entail ienv_dom x_in_1_5 one_le_0
   \<and> \<not> cst_is_tautology x_le_10 \<and> \<not> cst_is_contradiction x_le_10 \<and> \<not> cst_is_equality x_le_10
   \<and> nd_is_bottom ienv_dom (nd_add_cst ienv_dom (cst_negate x_le_10) x_in_1_5)
   \<and> entail ienv_dom x_in_1_5 x_le_10
   \<and> \<not> nd_is_bottom ienv_dom x_is_3
   \<and> \<not> cst_is_tautology x_eq_3 \<and> \<not> cst_is_contradiction x_eq_3 \<and> cst_is_equality x_eq_3
   \<and> entail ienv_dom x_is_3 x_eq_3"
proof -
  have b: "nd_is_bottom ienv_dom None" "\<not> nd_is_bottom ienv_dom x_in_1_5"
    "\<not> nd_is_bottom ienv_dom x_is_3"
    by (simp_all add: ienv_dom_def x_in_1_5_def x_is_3_def)
  have t: "cst_is_tautology zero_le_0" "\<not> cst_is_tautology one_le_0"
    "cst_is_contradiction one_le_0" "\<not> cst_is_tautology x_le_10" "\<not> cst_is_contradiction x_le_10"
    "\<not> cst_is_equality x_le_10" "\<not> cst_is_tautology x_eq_3" "\<not> cst_is_contradiction x_eq_3"
    "cst_is_equality x_eq_3"
    by (simp_all add: zero_le_0_def one_le_0_def x_le_10_def x_eq_3_def cst_is_tautology_def
        cst_is_contradiction_def cst_is_equality_def mk_cst_def exp_is_constant_def
        exp_of_number_def cst_holds_const_def)
  have n: "nd_is_bottom ienv_dom (nd_add_cst ienv_dom (cst_negate x_le_10) x_in_1_5)"
    by (simp add: ienv_dom_def x_le_10_def x_in_1_5_def cst_negate_def mk_cst_def exp_scale_def
        ienv_add_cst_def ienv_eval_simps ienv_get_def interval_of_number_def bound_min_def
        bound_max_def mk_interval_def interval_is_bottom_def Let_def)
  have e: "\<forall>c \<in> set (lower_equality x_eq_3 []).
             nd_is_bottom ienv_dom (nd_add_cst ienv_dom (cst_negate c) x_is_3)"
    by (simp add: ienv_dom_def x_eq_3_def x_is_3_def lower_equality_def cst_is_equality_def
        cst_negate_def mk_cst_def exp_scale_def
        ienv_add_cst_def ienv_eval_simps ienv_get_def interval_of_number_def bound_min_def
        bound_max_def mk_interval_def interval_is_bottom_def Let_def)
  show ?thesis
    using b t n e
      entail_by_negation [of ienv_dom None x_le_10]
      entail_by_negation [of ienv_dom x_in_1_5 zero_le_0]
      entail_by_negation [of ienv_dom x_in_1_5 one_le_0]
      entail_by_negation [of ienv_dom x_in_1_5 x_le_10]
      entail_by_negation [of ienv_dom x_is_3 x_eq_3]
    by simp
qed

lemma weak_update_join: "weak_update D a rhs inv0 = nd_join D inv0 (strong_update D a rhs inv0)"
  by (simp add: weak_update_def strong_update_def Let_def)

text \<open>
  C8. A singleton store of the smashing domain is the strong update of the summary
  variable; any other store is the join of the old value with its strong update, so
  whenever the join of the inner domain is an upper bound, the result is above the old
  value and above the strongly updated one.
\<close>

theorem smashing_store_strong_or_weak:
  "smashing_array_store D a elem_size i val True inv0 = strong_update D a val inv0
   \<and> smashing_array_store D a elem_size i val False inv0
       = nd_join D inv0 (strong_update D a val inv0)
   \<and> ((\<forall>x y. nd_leq D x (nd_join D x y) \<and> nd_leq D y (nd_join D x y)) \<longrightarrow>
         nd_leq D inv0 (smashing_array_store D a elem_size i val False inv0)
       \<and> nd_leq D (strong_update D a val inv0)
           (smashing_array_store D a elem_size i val False inv0))"
  by (simp add: smashing_array_store_def weak_update_join)

theorem smashing_store_strong_or_weak_witness:
  "(\<forall>x y. nd_leq ienv_dom x (nd_join ienv_dom x y) \<and> nd_leq ienv_dom y (nd_join ienv_dom x y))
   \<and> smashing_array_store ienv_dom a_var (exp_of_number 4) (exp_of_var x_var) (exp_of_number 5)
        False a_is_0 = Some [(a_var, Range (Fin 0) (Fin 5))]
   \<and> nd_leq ienv_dom a_is_0 (Some [(a_var, Range (Fin 0) (Fin 5))])
   \<and> nd_leq ienv_dom (strong_update ienv_dom a_var (exp_of_number 5) a_is_0)
        (Some [(a_var, Range (Fin 0) (Fin 5))])"
proof -
  have u: "\<forall>x y. nd_leq ienv_dom x (nd_join ienv_dom x y) \<and> nd_leq ienv_dom y (nd_join ienv_dom x y)"
    using ienv_join_upper by (simp add: ienv_dom_def)
  have s: "strong_update ienv_dom a_var (exp_of_number 5) a_is_0
             = Some [(a_var, Range (Fin 5) (Fin 5))]"
    by (simp add: strong_update_def a_var_def ienv_dom_def ienv_assign_def exp_of_number_def
        ienv_eval_simps interval_of_number_def ienv_set_def a_is_0_def interval_top_def)
  have j: "nd_join ienv_dom a_is_0 (Some [(a_var, Range (Fin 5) (Fin 5))])
             = Some [(a_var, Range (Fin 0) (Fin 5))]"
    by (simp add: ienv_dom_def ienv_join_def a_is_0_def ienv_get_def bound_min_def bound_max_def
        interval_top_def)
  note T = smashing_store_strong_or_weak [of ienv_dom a_var "exp_of_number 4" "exp_of_var x_var"
        "exp_of_number 5" a_is_0]
  have w: "smashing_array_store ienv_dom a_var (exp_of_number 4) (exp_of_var x_var)
             (exp_of_number 5) False a_is_0 = Some [(a_var, Range (Fin 0) (Fin 5))]"
    using T s j by simp
  have l: "nd_leq ienv_dom a_is_0 (Some [(a_var, Range (Fin 0) (Fin 5))])
         \<and> nd_leq ienv_dom (strong_update ienv_dom a_var (exp_of_number 5) a_is_0)
              (Some [(a_var, Range (Fin 0) (Fin 5))])"
    using T u unfolding w by blast
  show ?thesis
    using u w l by blast
qed

section \<open>Properties of array expansion: loads and initialization\<close>

lemma to_interval_number [simp]:
  "to_interval D d (exp_of_number k) = interval_of_number k"
  by (simp add: to_interval_def exp_of_number_def)

lemma singleton_of_number [simp]: "interval_singleton (interval_of_number k) = Some k"
  by (simp add: interval_of_number_def)

text \<open>
  C6. The state binds \<open>lhs\<close> to \<open>[5, 5]\<close> and \<open>y\<close> to \<open>[4, 8]\<close>. A load with the constant
  index 0 and the element size \<open>y\<close> only writes the warning: \<open>lhs\<close> keeps \<open>[5, 5]\<close>, where
  forgetting it would have given top.
\<close>

theorem array_load_nonconstant_size_keeps_lhs:
  "\<not> ae_is_bottom ienv_dom ae_lhs5_y48 \<and> \<not> ae_is_top ienv_dom ae_lhs5_y48
   \<and> interval_singleton (to_interval ienv_dom (ae_inv ae_lhs5_y48) (exp_of_number 0)) = Some 0
   \<and> interval_singleton (to_interval ienv_dom (ae_inv ae_lhs5_y48) (exp_of_var y_var)) = None
   \<and> array_load ienv_dom lhs_var a_var (exp_of_var y_var) (exp_of_number 0) ae_lhs5_y48
       = Inr (ae_lhs5_y48\<lparr> ae_warnings :=
           [[Text ''array expansion ignored array load because element size is not constant'']] \<rparr>)
   \<and> nd_get ienv_dom (ae_inv ae_lhs5_y48) lhs_var = Range (Fin 5) (Fin 5)
   \<and> nd_get ienv_dom (nd_forget ienv_dom lhs_var (ae_inv ae_lhs5_y48)) lhs_var = interval_top"
proof -
  have g: "nd_get ienv_dom (ae_inv ae_lhs5_y48) y_var = Range (Fin 4) (Fin 8)"
    by (simp add: ienv_dom_def ae_lhs5_y48_def ienv_get_def y_var_def lhs_var_def)
  have y: "to_interval ienv_dom (ae_inv ae_lhs5_y48) (exp_of_var y_var) = Range (Fin 4) (Fin 8)"
    by (simp add: to_interval_def exp_of_var_def g interval_of_number_def Let_def
        bound_min_def bound_max_def)
  have bt: "\<not> ae_is_bottom ienv_dom ae_lhs5_y48 \<and> \<not> ae_is_top ienv_dom ae_lhs5_y48"
    by (simp add: ae_is_bottom_def ae_is_top_def ienv_dom_def ae_lhs5_y48_def)
  have l: "array_load ienv_dom lhs_var a_var (exp_of_var y_var) (exp_of_number 0) ae_lhs5_y48
       = Inr (ae_lhs5_y48\<lparr> ae_warnings :=
           [[Text ''array expansion ignored array load because element size is not constant'']] \<rparr>)"
    using bt by (simp add: array_load_def y CRAB_WARN_def) (simp add: ae_lhs5_y48_def)
  have v: "nd_get ienv_dom (ae_inv ae_lhs5_y48) lhs_var = Range (Fin 5) (Fin 5)
     \<and> nd_get ienv_dom (nd_forget ienv_dom lhs_var (ae_inv ae_lhs5_y48)) lhs_var = interval_top"
    by (simp add: ienv_dom_def ae_lhs5_y48_def ienv_get_def ienv_forget_def y_var_def lhs_var_def)
  show ?thesis using bt y l v by simp
qed

text \<open>
  The other two imprecise loads: with a non-constant index, and with overlapping cells
  reported by \<open>get_overlap_cells\<close>, the load warns and forgets \<open>lhs\<close>; \<open>_array_map\<close> is
  unchanged.
\<close>

lemma array_load_imprecise_index:
  assumes "\<not> ae_is_bottom D s" "\<not> ae_is_top D s"
    and "interval_singleton (to_interval D (ae_inv s) i) = None"
  shows "array_load D lhs a elem_size i s
     = Inr (s\<lparr> ae_warnings := ae_warnings s
               @ [[Text ''array expansion: ignored read because of non-constant array index '',
                   Exp i]],
             ae_inv := nd_forget D lhs (ae_inv s) \<rparr>)"
  using assms by (simp add: array_load_def CRAB_WARN_def Let_def)

lemma array_load_overlap:
  assumes "\<not> ae_is_bottom D s" "\<not> ae_is_top D s"
    and "interval_singleton (to_interval D (ae_inv s) i) = Some n"
    and "interval_singleton (to_interval D (ae_inv s) elem_size) = Some n_bytes"
    and "fst (get_overlap_cells (number_to_offset n) (number_to_size n_bytes) []
              (ae_array_map s a)) \<noteq> []"
  shows "array_load D lhs a elem_size i s
     = Inr (s\<lparr> ae_warnings := ae_warnings s
               @ [[Text ''array expansion ignored read from cell ['', Off (number_to_offset n),
                   Text ''...'',
                   Idx ((number_to_offset n + number_to_size n_bytes + (2 ^ 64 - 1)) mod 2 ^ 64),
                   Text '']'', Text '' because it overlaps with other cells.'']],
             ae_inv := nd_forget D lhs (ae_inv s) \<rparr>)"
  using assms by (simp add: array_load_def CRAB_WARN_def Let_def)

lemma smod_eq_0_iff_dvd: "((a::int) smod n = 0) = (n dvd a)"
proof -
  have "(a smod n = 0) = (a = 0 \<or> \<bar>a\<bar> mod \<bar>n\<bar> = 0)"
    by (auto simp: signed_modulo_int_def sgn_if)
  also have "\<dots> = (\<bar>n\<bar> dvd \<bar>a\<bar>)"
    by (auto simp: dvd_eq_mod_eq_0)
  finally show ?thesis by simp
qed

lemma init_loop_exit: "\<not> i < e \<Longrightarrow> init_loop D a elem_size val n e i s = Some (Inr s)"
  by (subst init_loop.simps) simp

lemma init_loop_step:
  "i < e \<Longrightarrow> init_loop D a elem_size val n e i s =
     (case array_store D a elem_size (exp_of_number i) val False s of
        Inl err \<Rightarrow> Some (Inl err)
      | Inr s' \<Rightarrow> init_loop D a elem_size val n e (i + n) s')"
  by (subst init_loop.simps) simp

lemma init_loop_nonpositive_aux:
  assumes r: "init_loop D a elem_size val n e i s = Some y"
  shows "n \<le> 0 \<longrightarrow> i < e \<longrightarrow> isl y"
proof (rule init_loop.raw_induct
    [where P = "\<lambda>D a elem_size val n e i s y. n \<le> 0 \<longrightarrow> i < e \<longrightarrow> isl y", OF _ r])
  fix f :: "'a numdom \<Rightarrow> var \<Rightarrow> linexp \<Rightarrow> linexp \<Rightarrow> int \<Rightarrow> int \<Rightarrow> int \<Rightarrow> 'a ae_state
      \<Rightarrow> (error + 'a ae_state) option"
  fix D a elem_size val n e i s y
  assume IH: "\<And>D a elem_size val n e i s y.
      f D a elem_size val n e i s = Some y \<Longrightarrow> n \<le> 0 \<longrightarrow> i < e \<longrightarrow> isl y"
  assume eq: "(if i < e
      then case array_store D a elem_size (exp_of_number i) val False s of
             Inl err \<Rightarrow> Some (Inl err)
           | Inr s' \<Rightarrow> f D a elem_size val n e (i + n) s'
      else Some (Inr s)) = Some y"
  show "n \<le> 0 \<longrightarrow> i < e \<longrightarrow> isl y"
  proof (intro impI)
    assume n: "n \<le> 0" and i: "i < e"
    show "isl y"
    proof (cases "array_store D a elem_size (exp_of_number i) val False s")
      case (Inl err)
      then have "y = Inl err" using eq i by simp
      then show ?thesis by simp
    next
      case (Inr s')
      then have "f D a elem_size val n e (i + n) s' = Some y"
        using eq i by simp
      moreover have "i + n < e" using n i by simp
      ultimately show ?thesis using IH n by blast
    qed
  qed
qed

lemma init_loop_nonpositive:
  "n \<le> 0 \<Longrightarrow> i < e \<Longrightarrow> map_option isl (init_loop D a elem_size val n e i s) \<noteq> Some False"
  using init_loop_nonpositive_aux [of D a elem_size val n e i s]
  by (cases "init_loop D a elem_size val n e i s") auto

lemma map_offsets_Suc:
  "map (\<lambda>j. i + int j * n) [0 ..< Suc k] = i # map (\<lambda>j. (i + n) + int j * n) [0 ..< k]"
proof -
  have "[0 ..< Suc k] = 0 # map Suc [0 ..< k]"
    by (simp add: upt_conv_Cons map_Suc_upt del: upt_Suc)
  then show ?thesis
    by (simp add: comp_def algebra_simps del: upt_Suc)
qed

lemma init_loop_multiple:
  "0 < n \<Longrightarrow> e - i = int k * n \<Longrightarrow>
   init_loop D a elem_size val n e i s
     = Some (store_all D a elem_size val (map (\<lambda>j. i + int j * n) [0 ..< k]) s)"
proof (induction k arbitrary: i s)
  case 0
  then show ?case by (simp add: init_loop_exit)
next
  case (Suc k)
  have lt: "i < e"
  proof -
    have "0 < int (Suc k) * n" using Suc.prems(1) by simp
    then show ?thesis using Suc.prems(2) by linarith
  qed
  have rest: "e - (i + n) = int k * n"
    using Suc.prems(2) by (simp add: algebra_simps)
  show ?case
    unfolding map_offsets_Suc
    by (simp add: init_loop_step [OF lt] Suc.IH [OF Suc.prems(1) rest] split: sum.splits)
qed

lemma init_loop_dvd:
  assumes "0 < n" "n dvd (ub - lb)"
  shows "init_loop D a elem_size val n ub lb s
     = Some (store_all D a elem_size val (init_offsets lb ub n) s)"
proof (cases "lb < ub")
  case True
  from assms(2) obtain q where q: "ub - lb = n * q" by (auto simp: dvd_def)
  have qpos: "0 < q" using True q assms(1) by (metis diff_gt_0_iff_gt zero_less_mult_pos)
  have d: "(ub - lb) div n = q" using q assms(1) by simp
  have e: "ub - lb = int (nat q) * n" using q qpos by (simp add: mult.commute)
  show ?thesis
    using init_loop_multiple [OF assms(1) e] by (simp add: init_offsets_def d)
next
  case False
  then have "(ub - lb) div n \<le> 0"
    using assms(1) by (simp add: div_nonpos_pos_le0)
  then show ?thesis using False by (simp add: init_loop_exit init_offsets_def)
qed

text \<open>
  C7 (as amended). On a bottom or top state \<open>array_init\<close> returns the state as it is. On a
  state that is neither, it requires \<open>lb\<close>, \<open>ub\<close> and the element size to be constants, the
  remainder \<open>(ub - lb) % n\<close> to be zero (for \<open>n \<noteq> 0\<close>: \<open>n\<close> divides \<open>ub - lb\<close>) and \<open>ub - lb\<close>
  to be at most 512. When one of these conditions fails it writes the warning of that
  condition and changes nothing else; when the number class fails on the remainder, so
  does \<open>array_init\<close>. When all hold and \<open>n > 0\<close>, it returns the result of the stores of
  \<open>val\<close> at \<open>lb, lb + n, ..., ub - n\<close>; when all hold and \<open>ub \<le> lb\<close> it stores nothing;
  when all hold, \<open>n \<le> 0\<close> and \<open>lb < ub\<close>, the loop never reaches \<open>ub\<close>: \<open>array_init\<close>
  does not return a state.
\<close>

theorem array_init_guarded:
  "(ae_is_bottom D s \<or> ae_is_top D s \<longrightarrow>
      array_init D rz a elem_size lb_idx ub_idx val s = Some (Inr s))
   \<and> (\<not> ae_is_bottom D s \<and> \<not> ae_is_top D s
      \<and> interval_singleton (to_interval D (ae_inv s) lb_idx) = None \<longrightarrow>
      array_init D rz a elem_size lb_idx ub_idx val s
        = Some (Inr (s\<lparr> ae_warnings := ae_warnings s @
            [[Text ''array expansion initialization ignored because '',
              Text ''lower bound is not constant'']] \<rparr>)))
   \<and> (\<not> ae_is_bottom D s \<and> \<not> ae_is_top D s
      \<and> interval_singleton (to_interval D (ae_inv s) lb_idx) = Some lb
      \<and> interval_singleton (to_interval D (ae_inv s) ub_idx) = None \<longrightarrow>
      array_init D rz a elem_size lb_idx ub_idx val s
        = Some (Inr (s\<lparr> ae_warnings := ae_warnings s @
            [[Text ''array expansion initialization ignored because '',
              Text ''upper bound is not constant'']] \<rparr>)))
   \<and> (\<not> ae_is_bottom D s \<and> \<not> ae_is_top D s
      \<and> interval_singleton (to_interval D (ae_inv s) lb_idx) = Some lb
      \<and> interval_singleton (to_interval D (ae_inv s) ub_idx) = Some ub
      \<and> interval_singleton (to_interval D (ae_inv s) elem_size) = None \<longrightarrow>
      array_init D rz a elem_size lb_idx ub_idx val s
        = Some (Inr (s\<lparr> ae_warnings := ae_warnings s @
            [[Text ''array expansion initialization ignored because '',
              Text ''elem size is not constant'']] \<rparr>)))
   \<and> (init_constants D s lb_idx ub_idx elem_size lb ub n
      \<and> number_rem rz (ub - lb) n = Inl err \<longrightarrow>
      array_init D rz a elem_size lb_idx ub_idx val s = Some (Inl err))
   \<and> (init_constants D s lb_idx ub_idx elem_size lb ub n
      \<and> number_rem rz (ub - lb) n = Inr r \<and> r \<noteq> 0 \<longrightarrow>
      array_init D rz a elem_size lb_idx ub_idx val s
        = Some (Inr (s\<lparr> ae_warnings := ae_warnings s @
            [[Text ''array expansion initialization ignored because '',
              Text ''the number of elements must be divisible by '', Num n]] \<rparr>)))
   \<and> (n \<noteq> 0 \<longrightarrow>
      number_rem rz (ub - lb) n = Inr ((ub - lb) smod n)
      \<and> ((ub - lb) smod n \<noteq> 0) = (\<not> n dvd (ub - lb))
      \<and> init_divisible rz lb ub n = (n dvd (ub - lb)))
   \<and> (init_constants D s lb_idx ub_idx elem_size lb ub n
      \<and> init_divisible rz lb ub n \<and> 512 < ub - lb \<longrightarrow>
      array_init D rz a elem_size lb_idx ub_idx val s
        = Some (Inr (s\<lparr> ae_warnings := ae_warnings s @
            [[Text ''array expansion initialization ignored because '',
              Text ''the number of elements is larger than default limit of '',
              Num 512]] \<rparr>)))
   \<and> (init_constants D s lb_idx ub_idx elem_size lb ub n
      \<and> init_divisible rz lb ub n \<and> ub - lb \<le> 512 \<and> 0 < n \<longrightarrow>
      array_init D rz a elem_size lb_idx ub_idx val s
        = Some (store_all D a elem_size val (init_offsets lb ub n) s))
   \<and> (init_constants D s lb_idx ub_idx elem_size lb ub n
      \<and> init_divisible rz lb ub n \<and> ub - lb \<le> 512 \<and> ub \<le> lb \<longrightarrow>
      array_init D rz a elem_size lb_idx ub_idx val s = Some (Inr s))
   \<and> (init_constants D s lb_idx ub_idx elem_size lb ub n
      \<and> init_divisible rz lb ub n \<and> ub - lb \<le> 512 \<and> n \<le> 0 \<and> lb < ub \<longrightarrow>
      map_option isl (array_init D rz a elem_size lb_idx ub_idx val s) \<noteq> Some False)"
proof -
  have g: "ae_is_bottom D s \<or> ae_is_top D s \<longrightarrow>
      array_init D rz a elem_size lb_idx ub_idx val s = Some (Inr s)"
    by (simp add: array_init_def)
  have w: "\<not> ae_is_bottom D s \<and> \<not> ae_is_top D s
      \<and> interval_singleton (to_interval D (ae_inv s) lb_idx) = None \<longrightarrow>
      array_init D rz a elem_size lb_idx ub_idx val s
        = Some (Inr (s\<lparr> ae_warnings := ae_warnings s @
            [[Text ''array expansion initialization ignored because '',
              Text ''lower bound is not constant'']] \<rparr>))"
    "\<not> ae_is_bottom D s \<and> \<not> ae_is_top D s
      \<and> interval_singleton (to_interval D (ae_inv s) lb_idx) = Some lb
      \<and> interval_singleton (to_interval D (ae_inv s) ub_idx) = None \<longrightarrow>
      array_init D rz a elem_size lb_idx ub_idx val s
        = Some (Inr (s\<lparr> ae_warnings := ae_warnings s @
            [[Text ''array expansion initialization ignored because '',
              Text ''upper bound is not constant'']] \<rparr>))"
    "\<not> ae_is_bottom D s \<and> \<not> ae_is_top D s
      \<and> interval_singleton (to_interval D (ae_inv s) lb_idx) = Some lb
      \<and> interval_singleton (to_interval D (ae_inv s) ub_idx) = Some ub
      \<and> interval_singleton (to_interval D (ae_inv s) elem_size) = None \<longrightarrow>
      array_init D rz a elem_size lb_idx ub_idx val s
        = Some (Inr (s\<lparr> ae_warnings := ae_warnings s @
            [[Text ''array expansion initialization ignored because '',
              Text ''elem size is not constant'']] \<rparr>))"
    by (simp_all add: array_init_def CRAB_WARN_def)
  have e: "init_constants D s lb_idx ub_idx elem_size lb ub n
      \<and> number_rem rz (ub - lb) n = Inl err \<longrightarrow>
      array_init D rz a elem_size lb_idx ub_idx val s = Some (Inl err)"
    by (simp add: array_init_def init_constants_def)
  have d: "init_constants D s lb_idx ub_idx elem_size lb ub n
      \<and> number_rem rz (ub - lb) n = Inr r \<and> r \<noteq> 0 \<longrightarrow>
      array_init D rz a elem_size lb_idx ub_idx val s
        = Some (Inr (s\<lparr> ae_warnings := ae_warnings s @
            [[Text ''array expansion initialization ignored because '',
              Text ''the number of elements must be divisible by '', Num n]] \<rparr>))"
    by (simp add: array_init_def init_constants_def CRAB_WARN_def)
  have r: "n \<noteq> 0 \<longrightarrow>
      number_rem rz (ub - lb) n = Inr ((ub - lb) smod n)
      \<and> ((ub - lb) smod n \<noteq> 0) = (\<not> n dvd (ub - lb))
      \<and> init_divisible rz lb ub n = (n dvd (ub - lb))"
    by (simp add: number_rem_def init_divisible_def smod_eq_0_iff_dvd)
  have l: "init_constants D s lb_idx ub_idx elem_size lb ub n
      \<and> init_divisible rz lb ub n \<and> 512 < ub - lb \<longrightarrow>
      array_init D rz a elem_size lb_idx ub_idx val s
        = Some (Inr (s\<lparr> ae_warnings := ae_warnings s @
            [[Text ''array expansion initialization ignored because '',
              Text ''the number of elements is larger than default limit of '',
              Num 512]] \<rparr>))"
    by (simp add: array_init_def init_constants_def init_divisible_def CRAB_WARN_def)
  have loop: "array_init D rz a elem_size lb_idx ub_idx val s
        = init_loop D a elem_size val n ub lb s"
    if "init_constants D s lb_idx ub_idx elem_size lb ub n" "init_divisible rz lb ub n"
      "ub - lb \<le> 512"
    using that by (simp add: array_init_def init_constants_def init_divisible_def)
  have p: "init_constants D s lb_idx ub_idx elem_size lb ub n
      \<and> init_divisible rz lb ub n \<and> ub - lb \<le> 512 \<and> 0 < n \<longrightarrow>
      array_init D rz a elem_size lb_idx ub_idx val s
        = Some (store_all D a elem_size val (init_offsets lb ub n) s)"
  proof (intro impI, elim conjE)
    assume a: "init_constants D s lb_idx ub_idx elem_size lb ub n" "init_divisible rz lb ub n"
      "ub - lb \<le> 512" "0 < n"
    then have "n dvd (ub - lb)"
      by (simp add: init_divisible_def number_rem_def smod_eq_0_iff_dvd)
    then show "array_init D rz a elem_size lb_idx ub_idx val s
        = Some (store_all D a elem_size val (init_offsets lb ub n) s)"
      using a by (simp add: loop init_loop_dvd)
  qed
  have z: "init_constants D s lb_idx ub_idx elem_size lb ub n
      \<and> init_divisible rz lb ub n \<and> ub - lb \<le> 512 \<and> ub \<le> lb \<longrightarrow>
      array_init D rz a elem_size lb_idx ub_idx val s = Some (Inr s)"
    by (simp add: loop init_loop_exit)
  have m: "init_constants D s lb_idx ub_idx elem_size lb ub n
      \<and> init_divisible rz lb ub n \<and> ub - lb \<le> 512 \<and> n \<le> 0 \<and> lb < ub \<longrightarrow>
      map_option isl (array_init D rz a elem_size lb_idx ub_idx val s) \<noteq> Some False"
  proof (intro impI, elim conjE)
    assume a: "init_constants D s lb_idx ub_idx elem_size lb ub n" "init_divisible rz lb ub n"
      "ub - lb \<le> 512" "n \<le> 0" "lb < ub"
    show "map_option isl (array_init D rz a elem_size lb_idx ub_idx val s) \<noteq> Some False"
      unfolding loop [OF a(1) a(2) a(3)] using a(4) a(5) by (rule init_loop_nonpositive)
  qed
  show ?thesis
    using g w e d r l p z m by blast
qed


lemma cell_to_interval_0_4: "cell_to_interval 0 4 = Range (Fin 0) (Fin 3)"
  by (simp add: cell_to_interval_def mk_interval_def)

lemma goc_empty: "get_overlap_cells 0 4 [] [] = ([], [])"
  by (simp add: get_overlap_cells_def get_cell_def pt_lookup_def is_null_def null_cell_def
      cell_of_size_def insert_cell_def Let_def scan_lb_def overlap_def cell_to_interval_def
      mk_interval_def cell_eq_def bound_max_def bound_min_def interval_is_bottom_def
      scan_ub_def scan_rest_def remove_cell_def set_erase_def pt_remove_def)

lemma mk_cell_empty:
  "mk_cell a_var 0 4 ([], []) = Inr (cell04, [(0, [cell04])], [((ProgVar 0, 0, 4), 0)])"
  by (simp add: mk_cell_def get_cell_def pt_lookup_def is_null_def null_cell_def Let_def
      get_array_element_type_def a_var_def get_index_def cell_of_scalar_def insert_cell_def
      has_scalar_def cell04_def)

lemma store_top:
  "array_store ienv_dom a_var (exp_of_number 4) (exp_of_number 0) (exp_of_number 0) False ae_top
     = Inr (ae_top\<lparr> ae_inv := Some [(\<lparr> v_name = KeyVar 0, v_type = INT_TYPE, v_bitwidth = 4 \<rparr>,
                                     Range (Fin 0) (Fin 0))],
                    ae_array_map := (ae_array_map ae_top)(a_var := [(0, [cell04])]),
                    ae_index_map := [((ProgVar 0, 0, 4), 0)] \<rparr>)"
  apply (simp add: array_store_def ae_is_bottom_def Let_def number_to_offset_def number_to_size_def)
  apply (simp add: ae_top_def ienv_dom_def goc_empty mk_cell_empty)
  apply (simp add: cell04_def ienv_dom_def ienv_assign_def ienv_eval_def exp_of_number_def
       interval_of_number_def ienv_set_def interval_top_def ae_top_def)
  done


text \<open>
  C7 (counterexample). On the top state every condition of \<open>array_init(a, 4, 0, 4, 0)\<close>
  holds, yet the state is returned as it is, while the store at offset 0 changes it. On
  a state that is neither bottom nor top, every condition of \<open>array_init(a, -4, 0, 4, 0)\<close>
  holds, yet \<open>array_init\<close> does not return a state.
\<close>

theorem array_init_counterexample:
  "ae_is_top ienv_dom ae_top \<and> \<not> ae_is_bottom ienv_dom ae_top
   \<and> interval_singleton (to_interval ienv_dom (ae_inv ae_top) (exp_of_number 0)) = Some 0
   \<and> interval_singleton (to_interval ienv_dom (ae_inv ae_top) (exp_of_number 4)) = Some 4
   \<and> (4::int) dvd 4 - 0 \<and> (4::int) - 0 \<le> 512
   \<and> array_init ienv_dom raise_on_zero a_var (exp_of_number 4) (exp_of_number 0)
         (exp_of_number 4) (exp_of_number 0) ae_top = Some (Inr ae_top)
   \<and> init_offsets 0 4 4 = [0]
   \<and> store_all ienv_dom a_var (exp_of_number 4) (exp_of_number 0) (init_offsets 0 4 4) ae_top
       \<noteq> Inr ae_top
   \<and> \<not> ae_is_top ienv_dom ae_x5 \<and> \<not> ae_is_bottom ienv_dom ae_x5
   \<and> interval_singleton (to_interval ienv_dom (ae_inv ae_x5) (exp_of_number 0)) = Some 0
   \<and> interval_singleton (to_interval ienv_dom (ae_inv ae_x5) (exp_of_number 4)) = Some 4
   \<and> interval_singleton (to_interval ienv_dom (ae_inv ae_x5) (exp_of_number (- 4))) = Some (- 4)
   \<and> (4 - 0) smod (- 4 :: int) = 0 \<and> (- 4 :: int) dvd 4 - 0
   \<and> map_option isl
         (array_init ienv_dom raise_on_zero a_var (exp_of_number (- 4)) (exp_of_number 0)
            (exp_of_number 4) (exp_of_number 0) ae_x5) \<noteq> Some False"
proof -
  have t: "ae_is_top ienv_dom ae_top \<and> \<not> ae_is_bottom ienv_dom ae_top"
    by (simp add: ae_is_top_def ae_is_bottom_def ienv_dom_def ae_top_def)
  have i: "array_init ienv_dom raise_on_zero a_var (exp_of_number 4) (exp_of_number 0)
         (exp_of_number 4) (exp_of_number 0) ae_top = Some (Inr ae_top)"
    using t by (simp add: array_init_def)
  have o: "init_offsets 0 4 4 = [0]"
    by (simp add: init_offsets_def)
  have "ae_index_map ae_top = []"
    by (simp add: ae_top_def)
  then have n: "store_all ienv_dom a_var (exp_of_number 4) (exp_of_number 0) [0] ae_top
       \<noteq> Inr ae_top"
    by (auto simp: store_top dest: arg_cong [where f = ae_index_map])
  have b: "\<not> ae_is_top ienv_dom ae_x5 \<and> \<not> ae_is_bottom ienv_dom ae_x5"
    by (simp add: ae_is_top_def ae_is_bottom_def ienv_dom_def ae_x5_def)
  have m: "(4 - 0) smod (- 4 :: int) = 0" "(- 4 :: int) dvd 4 - 0"
    by (simp_all add: smod_eq_0_iff_dvd)
  have l: "array_init ienv_dom raise_on_zero a_var (exp_of_number (- 4)) (exp_of_number 0)
            (exp_of_number 4) (exp_of_number 0) ae_x5
      = init_loop ienv_dom a_var (exp_of_number (- 4)) (exp_of_number 0) (- 4) 4 0 ae_x5"
    using b m(1) by (simp add: array_init_def number_rem_def)
  have d: "map_option isl
         (array_init ienv_dom raise_on_zero a_var (exp_of_number (- 4)) (exp_of_number 0)
            (exp_of_number 4) (exp_of_number 0) ae_x5) \<noteq> Some False"
    unfolding l by (rule init_loop_nonpositive) simp_all
  show ?thesis using t i o n b m d by simp
qed

text \<open>
  The theorem on the interval environment: the guard on the top state, the stores at
  0, 4, 8, 12, the five warnings, the failing remainder by zero, the empty range and the
  negative element size.
\<close>

theorem array_init_guarded_witness:
  "array_init ienv_dom raise_on_zero a_var (exp_of_number 4) (exp_of_number 0) (exp_of_number 16)
       (exp_of_number 0) ae_top = Some (Inr ae_top)
   \<and> init_constants ienv_dom ae_x5 (exp_of_number 0) (exp_of_number 16) (exp_of_number 4) 0 16 4
   \<and> init_divisible raise_on_zero 0 16 4
   \<and> array_init ienv_dom raise_on_zero a_var (exp_of_number 4) (exp_of_number 0) (exp_of_number 16)
         (exp_of_number 0) ae_x5
       = Some (store_all ienv_dom a_var (exp_of_number 4) (exp_of_number 0) [0, 4, 8, 12] ae_x5)
   \<and> init_constants ienv_dom ae_x5 (exp_of_number 0) (exp_of_number 16) (exp_of_var x_var) 0 16 5
   \<and> number_rem raise_on_zero (16 - 0) 5 = Inr 1
   \<and> array_init ienv_dom raise_on_zero a_var (exp_of_var x_var) (exp_of_number 0)
         (exp_of_number 16) (exp_of_number 0) ae_x5
       = Some (Inr (ae_x5\<lparr> ae_warnings :=
           [[Text ''array expansion initialization ignored because '',
             Text ''the number of elements must be divisible by '', Num 5]] \<rparr>))
   \<and> array_init ienv_dom raise_on_zero a_var (exp_of_number 4) (exp_of_number 0)
         (exp_of_number 1024) (exp_of_number 0) ae_x5
       = Some (Inr (ae_x5\<lparr> ae_warnings :=
           [[Text ''array expansion initialization ignored because '',
             Text ''the number of elements is larger than default limit of '', Num 512]] \<rparr>))
   \<and> array_init ienv_dom raise_on_zero a_var (exp_of_number 0) (exp_of_number 0)
         (exp_of_number 16) (exp_of_number 0) ae_x5 = Some (Inl DivisionByZero)
   \<and> array_init ienv_dom raise_on_zero a_var (exp_of_number 4) (exp_of_number 16)
         (exp_of_number 0) (exp_of_number 0) ae_x5 = Some (Inr ae_x5)
   \<and> map_option isl
         (array_init ienv_dom raise_on_zero a_var (exp_of_number (- 4)) (exp_of_number 0)
            (exp_of_number 16) (exp_of_number 0) ae_x5) \<noteq> Some False
   \<and> array_init ienv_dom raise_on_zero a_var (exp_of_number 4) (exp_of_var y_var)
         (exp_of_number 16) (exp_of_number 0) ae_lhs5_y48
       = Some (Inr (ae_lhs5_y48\<lparr> ae_warnings :=
           [[Text ''array expansion initialization ignored because '',
             Text ''lower bound is not constant'']] \<rparr>))
   \<and> array_init ienv_dom raise_on_zero a_var (exp_of_number 4) (exp_of_number 0)
         (exp_of_var y_var) (exp_of_number 0) ae_lhs5_y48
       = Some (Inr (ae_lhs5_y48\<lparr> ae_warnings :=
           [[Text ''array expansion initialization ignored because '',
             Text ''upper bound is not constant'']] \<rparr>))
   \<and> array_init ienv_dom raise_on_zero a_var (exp_of_var y_var) (exp_of_number 0)
         (exp_of_number 16) (exp_of_number 0) ae_lhs5_y48
       = Some (Inr (ae_lhs5_y48\<lparr> ae_warnings :=
           [[Text ''array expansion initialization ignored because '',
             Text ''elem size is not constant'']] \<rparr>))
   \<and> number_rem raise_on_zero (16 - 0) (- 4) = Inr ((16 - 0) smod (- 4))
   \<and> init_divisible raise_on_zero 0 16 (- 4) = ((- 4 :: int) dvd 16 - 0)"
proof -
  have t: "ae_is_top ienv_dom ae_top"
    by (simp add: ae_is_top_def ienv_dom_def ae_top_def)
  have b: "\<not> ae_is_bottom ienv_dom ae_x5" "\<not> ae_is_top ienv_dom ae_x5"
    by (simp_all add: ae_is_top_def ae_is_bottom_def ienv_dom_def ae_x5_def)
  have x: "interval_singleton (to_interval ienv_dom (ae_inv ae_x5) (exp_of_var x_var)) = Some 5"
    by (simp add: to_interval_def exp_of_var_def ienv_dom_def ae_x5_def ienv_get_def
        interval_of_number_def Let_def bound_min_def bound_max_def)
  have c: "init_constants ienv_dom ae_x5 (exp_of_number lb) (exp_of_number ub) (exp_of_number n)
      lb ub n" for lb ub n
    using b by (simp add: init_constants_def)
  have cx: "init_constants ienv_dom ae_x5 (exp_of_number 0) (exp_of_number 16) (exp_of_var x_var)
      0 16 5"
    using b x by (simp add: init_constants_def)
  have dv: "init_divisible raise_on_zero 0 16 4" "init_divisible raise_on_zero 0 1024 4"
    "init_divisible raise_on_zero 16 0 4" "init_divisible raise_on_zero 0 16 (- 4)"
    by (simp_all add: init_divisible_def number_rem_def smod_eq_0_iff_dvd)
  have r5: "number_rem raise_on_zero (16 - 0) 5 = Inr 1"
    by (simp add: number_rem_def signed_modulo_int_def)
  have r0: "number_rem raise_on_zero (16 - 0) 0 = Inl DivisionByZero"
    by (simp add: number_rem_def raise_on_zero_def)
  have o: "init_offsets 0 16 4 = [0, 4, 8, 12]"
    by (simp add: init_offsets_def upt_rec)
  have w: "ae_warnings ae_x5 = []" "ae_warnings ae_lhs5_y48 = []"
    by (simp_all add: ae_x5_def ae_lhs5_y48_def)
  have gy: "\<not> ae_is_bottom ienv_dom ae_lhs5_y48" "\<not> ae_is_top ienv_dom ae_lhs5_y48"
    by (simp_all add: ae_is_top_def ae_is_bottom_def ienv_dom_def ae_lhs5_y48_def)
  have y: "interval_singleton (to_interval ienv_dom (ae_inv ae_lhs5_y48) (exp_of_var y_var)) = None"
    by (simp add: to_interval_def exp_of_var_def ienv_dom_def ae_lhs5_y48_def ienv_get_def
        interval_of_number_def Let_def bound_min_def bound_max_def y_var_def lhs_var_def)
  note g = array_init_guarded [where D = ienv_dom and rz = raise_on_zero and a = a_var
      and val = "exp_of_number 0"]
  note g1 = g [THEN conjunct1, rule_format]
  note g2 = g [THEN conjunct2, THEN conjunct1, rule_format]
  note g3 = g [THEN conjunct2, THEN conjunct2, THEN conjunct1, rule_format]
  note g4 = g [THEN conjunct2, THEN conjunct2, THEN conjunct2, THEN conjunct1, rule_format]
  note g5 = g [THEN conjunct2, THEN conjunct2, THEN conjunct2, THEN conjunct2, THEN conjunct1,
      rule_format]
  note g7 = g [THEN conjunct2, THEN conjunct2, THEN conjunct2, THEN conjunct2, THEN conjunct2,
      THEN conjunct2, THEN conjunct1, rule_format]
  note g6 = g [THEN conjunct2, THEN conjunct2, THEN conjunct2, THEN conjunct2, THEN conjunct2,
      THEN conjunct1, rule_format]
  note g8 = g [THEN conjunct2, THEN conjunct2, THEN conjunct2, THEN conjunct2, THEN conjunct2,
      THEN conjunct2, THEN conjunct2, THEN conjunct1, rule_format]
  note g9 = g [THEN conjunct2, THEN conjunct2, THEN conjunct2, THEN conjunct2, THEN conjunct2,
      THEN conjunct2, THEN conjunct2, THEN conjunct2, THEN conjunct1, rule_format]
  note g10 = g [THEN conjunct2, THEN conjunct2, THEN conjunct2, THEN conjunct2, THEN conjunct2,
      THEN conjunct2, THEN conjunct2, THEN conjunct2, THEN conjunct2, THEN conjunct1, rule_format]
  note g11 = g [THEN conjunct2, THEN conjunct2, THEN conjunct2, THEN conjunct2, THEN conjunct2,
      THEN conjunct2, THEN conjunct2, THEN conjunct2, THEN conjunct2, THEN conjunct2, rule_format]
  have 1: "array_init ienv_dom raise_on_zero a_var (exp_of_number 4) (exp_of_number 0)
      (exp_of_number 16) (exp_of_number 0) ae_top = Some (Inr ae_top)"
    by (rule g1) (simp add: t)
  have "array_init ienv_dom raise_on_zero a_var (exp_of_number 4) (exp_of_number 0)
      (exp_of_number 16) (exp_of_number 0) ae_x5
       = Some (store_all ienv_dom a_var (exp_of_number 4) (exp_of_number 0)
           (init_offsets 0 16 4) ae_x5)"
    by (rule g9) (simp add: c dv)
  then have 2: "array_init ienv_dom raise_on_zero a_var (exp_of_number 4) (exp_of_number 0)
      (exp_of_number 16) (exp_of_number 0) ae_x5
       = Some (store_all ienv_dom a_var (exp_of_number 4) (exp_of_number 0) [0, 4, 8, 12] ae_x5)"
    unfolding o .
  have "array_init ienv_dom raise_on_zero a_var (exp_of_var x_var) (exp_of_number 0)
         (exp_of_number 16) (exp_of_number 0) ae_x5
       = Some (Inr (ae_x5\<lparr> ae_warnings := ae_warnings ae_x5 @
           [[Text ''array expansion initialization ignored because '',
             Text ''the number of elements must be divisible by '', Num 5]] \<rparr>))"
    by (rule g6 [where lb = 0 and ub = 16 and r = 1]) (use cx r5 in simp)
  then have 3: "array_init ienv_dom raise_on_zero a_var (exp_of_var x_var) (exp_of_number 0)
         (exp_of_number 16) (exp_of_number 0) ae_x5
       = Some (Inr (ae_x5\<lparr> ae_warnings :=
           [[Text ''array expansion initialization ignored because '',
             Text ''the number of elements must be divisible by '', Num 5]] \<rparr>))"
    unfolding w by simp
  have "array_init ienv_dom raise_on_zero a_var (exp_of_number 4) (exp_of_number 0)
         (exp_of_number 1024) (exp_of_number 0) ae_x5
       = Some (Inr (ae_x5\<lparr> ae_warnings := ae_warnings ae_x5 @
           [[Text ''array expansion initialization ignored because '',
             Text ''the number of elements is larger than default limit of '', Num 512]] \<rparr>))"
    by (rule g8 [where lb = 0 and ub = 1024 and n = 4]) (simp add: c dv)
  then have 4: "array_init ienv_dom raise_on_zero a_var (exp_of_number 4) (exp_of_number 0)
         (exp_of_number 1024) (exp_of_number 0) ae_x5
       = Some (Inr (ae_x5\<lparr> ae_warnings :=
           [[Text ''array expansion initialization ignored because '',
             Text ''the number of elements is larger than default limit of '', Num 512]] \<rparr>))"
    unfolding w by simp
  have 5: "array_init ienv_dom raise_on_zero a_var (exp_of_number 0) (exp_of_number 0)
         (exp_of_number 16) (exp_of_number 0) ae_x5 = Some (Inl DivisionByZero)"
    by (rule g5 [where lb = 0 and ub = 16 and n = 0]) (use c [of 0 16 0] r0 in simp)
  have 6: "array_init ienv_dom raise_on_zero a_var (exp_of_number 4) (exp_of_number 16)
         (exp_of_number 0) (exp_of_number 0) ae_x5 = Some (Inr ae_x5)"
    by (rule g10 [where lb = 16 and ub = 0 and n = 4]) (simp add: c dv)
  have 7: "map_option isl
         (array_init ienv_dom raise_on_zero a_var (exp_of_number (- 4)) (exp_of_number 0)
            (exp_of_number 16) (exp_of_number 0) ae_x5) \<noteq> Some False"
    by (rule g11 [where lb = 0 and ub = 16 and n = "- 4"]) (simp add: c dv)
  have "array_init ienv_dom raise_on_zero a_var (exp_of_number 4) (exp_of_var y_var)
         (exp_of_number 16) (exp_of_number 0) ae_lhs5_y48
       = Some (Inr (ae_lhs5_y48\<lparr> ae_warnings := ae_warnings ae_lhs5_y48 @
           [[Text ''array expansion initialization ignored because '',
             Text ''lower bound is not constant'']] \<rparr>))"
    by (rule g2) (simp add: gy y)
  then have 8: "array_init ienv_dom raise_on_zero a_var (exp_of_number 4) (exp_of_var y_var)
         (exp_of_number 16) (exp_of_number 0) ae_lhs5_y48
       = Some (Inr (ae_lhs5_y48\<lparr> ae_warnings :=
           [[Text ''array expansion initialization ignored because '',
             Text ''lower bound is not constant'']] \<rparr>))"
    unfolding w by simp
  have "array_init ienv_dom raise_on_zero a_var (exp_of_number 4) (exp_of_number 0)
         (exp_of_var y_var) (exp_of_number 0) ae_lhs5_y48
       = Some (Inr (ae_lhs5_y48\<lparr> ae_warnings := ae_warnings ae_lhs5_y48 @
           [[Text ''array expansion initialization ignored because '',
             Text ''upper bound is not constant'']] \<rparr>))"
    by (rule g3 [where lb = 0]) (simp add: gy y)
  then have 9: "array_init ienv_dom raise_on_zero a_var (exp_of_number 4) (exp_of_number 0)
         (exp_of_var y_var) (exp_of_number 0) ae_lhs5_y48
       = Some (Inr (ae_lhs5_y48\<lparr> ae_warnings :=
           [[Text ''array expansion initialization ignored because '',
             Text ''upper bound is not constant'']] \<rparr>))"
    unfolding w by simp
  have "array_init ienv_dom raise_on_zero a_var (exp_of_var y_var) (exp_of_number 0)
         (exp_of_number 16) (exp_of_number 0) ae_lhs5_y48
       = Some (Inr (ae_lhs5_y48\<lparr> ae_warnings := ae_warnings ae_lhs5_y48 @
           [[Text ''array expansion initialization ignored because '',
             Text ''elem size is not constant'']] \<rparr>))"
    by (rule g4 [where lb = 0 and ub = 16]) (simp add: gy y)
  then have 10: "array_init ienv_dom raise_on_zero a_var (exp_of_var y_var) (exp_of_number 0)
         (exp_of_number 16) (exp_of_number 0) ae_lhs5_y48
       = Some (Inr (ae_lhs5_y48\<lparr> ae_warnings :=
           [[Text ''array expansion initialization ignored because '',
             Text ''elem size is not constant'']] \<rparr>))"
    unfolding w by simp
  have nz: "(- 4 :: int) \<noteq> 0"
    by simp
  have 11: "number_rem raise_on_zero (16 - 0) (- 4) = Inr ((16 - 0) smod (- 4))"
    using g7 [where lb = 0 and ub = 16 and n = "- 4", OF nz] by (rule conjunct1)
  have 12: "init_divisible raise_on_zero 0 16 (- 4) = ((- 4 :: int) dvd 16 - 0)"
    using g7 [where lb = 0 and ub = 16 and n = "- 4", OF nz] by (elim conjE)
  show ?thesis
    by (intro conjI) (rule 1 c dv(1) 2 cx r5 3 4 5 6 7 8 9 10 11 12)+
qed

section \<open>Properties of array expansion: a load after a store\<close>

lemma cell_eq_refl [simp]: "cell_eq x x"
  by (simp add: cell_eq_def)

lemma cell_eq_sym: "cell_eq x y \<Longrightarrow> cell_eq y x"
  by (simp add: cell_eq_def)

lemma cell_eq_trans: "cell_eq x y \<Longrightarrow> cell_eq y z \<Longrightarrow> cell_eq x z"
  by (simp add: cell_eq_def)

lemma overlap_cell_eq: "cell_eq x y \<Longrightarrow> overlap x off sz = overlap y off sz"
  by (simp add: cell_eq_def overlap_def)

lemma in_eq_Nil [simp]: "\<not> in_eq x []"
  by (simp add: in_eq_def)

lemma in_eq_mono: "set out \<subseteq> set out' \<Longrightarrow> in_eq x out \<Longrightarrow> in_eq x out'"
  by (auto simp: in_eq_def)

lemma in_eq_cell_eq: "cell_eq x y \<Longrightarrow> in_eq x out = in_eq y out"
  by (auto simp: in_eq_def cell_eq_def)

lemma push_unique_set: "set (push_unique x out) = (if in_eq x out then set out else insert x (set out))"
  by (auto simp: push_unique_def in_eq_def find_None_iff)

lemma in_eq_push_unique: "in_eq x (push_unique x out)"
  by (auto simp: push_unique_set in_eq_def)

subsection \<open>Scans\<close>

lemma gscan_Nil [simp]: "gscan P Q [] acc = acc"
  by (simp add: gscan_def)

lemma gscan_Cons:
  "gscan P Q (x # xs) acc =
     gscan P Q xs (if P x then ((if Q x then push_unique x (fst acc) else fst acc), True) else acc)"
  by (simp add: gscan_def)

lemma gscan_mono: "set (fst acc) \<subseteq> set (fst (gscan P Q b acc))"
proof (induction b arbitrary: acc)
  case Nil
  then show ?case by simp
next
  case (Cons x xs)
  let ?acc' = "if P x then ((if Q x then push_unique x (fst acc) else fst acc), True) else acc"
  have a: "set (fst acc) \<subseteq> set (fst ?acc')"
    by (auto simp: push_unique_set)
  have b: "set (fst ?acc') \<subseteq> set (fst (gscan P Q xs ?acc'))"
    by (rule Cons.IH)
  have c: "gscan P Q (x # xs) acc = gscan P Q xs ?acc'"
    by (rule gscan_Cons)
  show ?case
    unfolding c using a b by (rule order_trans)
qed

lemma gscan_continue:
  "snd (gscan P Q b acc) = (snd acc \<or> (\<exists>x \<in> set b. P x))"
  by (induction b arbitrary: acc) (auto simp: gscan_Cons)

lemma gscan_covers:
  "x \<in> set b \<Longrightarrow> P x \<Longrightarrow> Q x \<Longrightarrow> in_eq x (fst (gscan P Q b acc))"
proof (induction b arbitrary: acc)
  case Nil
  then show ?case by simp
next
  case (Cons y ys)
  show ?case
  proof (cases "x = y")
    case True
    have a: "in_eq x (push_unique x (fst acc))" by (rule in_eq_push_unique)
    have b: "set (push_unique x (fst acc)) \<subseteq> set (fst (gscan P Q ys (push_unique x (fst acc), True)))"
      using gscan_mono [of "(push_unique x (fst acc), True)" P Q ys] by simp
    have c: "gscan P Q (y # ys) acc = gscan P Q ys (push_unique x (fst acc), True)"
      using True Cons.prems by (simp add: gscan_Cons)
    show ?thesis
      unfolding c using b a by (rule in_eq_mono)
  next
    case False
    then show ?thesis using Cons by (simp add: gscan_Cons)
  qed
qed

lemma gscan_from:
  "set (fst (gscan P Q b acc)) \<subseteq> set (fst acc) \<union> {x \<in> set b. P x \<and> Q x}"
proof (induction b arbitrary: acc)
  case Nil
  then show ?case by simp
next
  case (Cons y ys)
  have "set (fst (if P y then ((if Q y then push_unique y (fst acc) else fst acc), True) else acc))
      \<subseteq> set (fst acc) \<union> {x. x = y \<and> P x \<and> Q x}"
    by (auto simp: push_unique_set)
  then show ?case
    using Cons.IH [of "(if P y then ((if Q y then push_unique y (fst acc) else fst acc), True) else acc)"]
    by (auto simp: gscan_Cons)
qed

subsection \<open>Walks\<close>

lemma gwalk_mono: "set out \<subseteq> set (gwalk P Q bs out)"
proof (induction bs arbitrary: out)
  case Nil
  then show ?case by simp
next
  case (Cons b bs)
  have m: "set out \<subseteq> set (fst (gscan P Q b (out, False)))"
    using gscan_mono [of "(out, False)"] by simp
  show ?case
    using m Cons.IH [of "fst (gscan P Q b (out, False))"] by (auto simp: Let_def)
qed

lemma gwalk_from:
  "set (gwalk P Q bs out) \<subseteq> set out \<union> {x \<in> \<Union> (set ` set bs). P x \<and> Q x}"
proof (induction bs arbitrary: out)
  case Nil
  then show ?case by simp
next
  case (Cons b bs)
  have m: "set (fst (gscan P Q b (out, False))) \<subseteq> set out \<union> {x \<in> set b. P x \<and> Q x}"
    using gscan_from [of P Q b "(out, False)"] by simp
  show ?case
    using m Cons.IH [of "fst (gscan P Q b (out, False))"] by (auto simp: Let_def)
qed

lemma gwalk_stops:
  "bs = [] \<or> \<not> (\<exists>x \<in> set (hd bs). P x) \<Longrightarrow> gwalk P Q bs out = out"
proof (cases bs)
  case Nil
  then show ?thesis by simp
next
  case (Cons b bs')
  assume "bs = [] \<or> \<not> (\<exists>x \<in> set (hd bs). P x)"
  then have n: "\<not> (\<exists>x \<in> set b. P x)" using Cons by simp
  then have c: "\<not> snd (gscan P Q b (out, False))" by (simp add: gscan_continue)
  have "set (fst (gscan P Q b (out, False))) \<subseteq> set out"
    using gscan_from [of P Q b "(out, False)"] n by auto
  moreover have "fst (gscan P Q b (out, False)) = out"
    using n by (induction b) (auto simp: gscan_Cons)
  ultimately show ?thesis using Cons c by (simp add: Let_def)
qed

text \<open>
  Once the cells that a walk has collected are removed from the buckets it went through
  (and emptied buckets are dropped), the first bucket that is left holds no cell that
  satisfies \<open>P\<close>.
\<close>

lemma gwalk_residue:
  assumes "\<forall>b \<in> set bs. b \<noteq> []"
    and "\<forall>b \<in> set bs. \<forall>x \<in> set b. P x \<longrightarrow> Q x"
    and "\<forall>x y. cell_eq x y \<longrightarrow> P x = P y"
    and "set (gwalk P Q bs out) \<subseteq> set S"
    and "\<forall>x \<in> \<Union> (set ` set bs). in_eq x S \<longrightarrow> P x"
  shows "residue S bs = [] \<or> \<not> (\<exists>x \<in> set (hd (residue S bs)). P x)"
  using assms
proof (induction bs arbitrary: out)
  case Nil
  then show ?case by (simp add: residue_def)
next
  case (Cons b bs)
  show ?case
  proof (cases "\<exists>x \<in> set b. P x")
    case False
    then have "filter (\<lambda>x. \<not> in_eq x S) b = b"
      using Cons.prems(5) by (auto simp: filter_id_conv)
    then show ?thesis
      using False Cons.prems(1) by (simp add: residue_def)
  next
    case True
    then have c: "snd (gscan P Q b (out, False))" by (simp add: gscan_continue)
    have w: "gwalk P Q (b # bs) out = gwalk P Q bs (fst (gscan P Q b (out, False)))"
      using c by (simp add: Let_def)
    have cov: "\<forall>x \<in> set b. P x \<longrightarrow> in_eq x S"
    proof (intro ballI impI)
      fix x assume x: "x \<in> set b" "P x"
      then have "Q x" using Cons.prems(2) by simp
      then have "in_eq x (fst (gscan P Q b (out, False)))"
        using x by (simp add: gscan_covers)
      then have "in_eq x (gwalk P Q bs (fst (gscan P Q b (out, False))))"
        by (rule in_eq_mono [OF gwalk_mono])
      then show "in_eq x S"
        using Cons.prems(4) unfolding w by (rule in_eq_mono [rotated])
    qed
    have nop: "\<not> (\<exists>x \<in> set (filter (\<lambda>x. \<not> in_eq x S) b). P x)"
      using cov by auto
    have ih: "residue S bs = [] \<or> \<not> (\<exists>x \<in> set (hd (residue S bs)). P x)"
      using Cons.IH [of "fst (gscan P Q b (out, False))"] Cons.prems w by simp
    show ?thesis
    proof (cases "filter (\<lambda>x. \<not> in_eq x S) b = []")
      case True
      then show ?thesis using ih by (simp add: residue_def)
    next
      case False
      then show ?thesis using nop by (simp add: residue_def)
    qed
  qed
qed

subsection \<open>Removing cells from a well-formed map\<close>

lemma wf_offset_mapD:
  assumes "wf_offset_map m" "kb \<in> set m"
  shows "snd kb \<noteq> []" and "\<And>x. x \<in> set (snd kb) \<Longrightarrow> c_offset x = fst kb"
  using assms by (auto simp: wf_offset_map_def wf_bucket_def list_all_iff)

lemma wf_bucketD:
  "wf_offset_map m \<Longrightarrow> (k, b) \<in> set m \<Longrightarrow> b \<noteq> [] \<and> (\<forall>x \<in> set b. c_offset x = k)"
  by (auto simp: wf_offset_map_def wf_bucket_def list_all_iff)

lemma wf_distinct: "wf_offset_map m \<Longrightarrow> distinct (map fst m)"
  by (simp add: wf_offset_map_def strict_sorted_iff)

lemma pt_lookup_iff: "wf_offset_map m \<Longrightarrow> (pt_lookup m k = Some b) = ((k, b) \<in> set m)"
  by (simp add: pt_lookup_def wf_distinct)

lemma pt_insert_remove:
  "sorted_wrt (<) (map fst m) \<Longrightarrow> (k, b) \<in> set m \<Longrightarrow>
   pt_insert k v (pt_remove k m) = map (\<lambda>kb. if fst kb = k then (k, v) else kb) m"
proof (induction m)
  case Nil
  then show ?case by simp
next
  case (Cons a m)
  show ?case
  proof (cases "fst a = k")
    case True
    have gt: "\<forall>kb \<in> set m. k < fst kb" using Cons.prems(1) True by auto
    then have r: "pt_remove k m = m" by (auto simp: pt_remove_def filter_id_conv)
    have i: "pt_insert k v m = (k, v) # m"
      using gt by (cases m) auto
    have "map (\<lambda>kb. if fst kb = k then (k, v) else kb) m = m"
      using gt by (intro map_idI) auto
    then show ?thesis using True r i by (simp add: pt_remove_def)
  next
    case False
    then have in_m: "(k, b) \<in> set m" using Cons.prems(2) by auto
    then have "fst a < k" using Cons.prems(1) by force
    then show ?thesis
      using False Cons.IH in_m Cons.prems(1) by (cases a) (simp add: pt_remove_def)
  qed
qed

lemma purge_single_other:
  assumes "wf_offset_map m" "kb \<in> set m" "fst kb \<noteq> c_offset x"
  shows "filter (\<lambda>y. \<not> in_eq y [x]) (snd kb) = snd kb"
  using wf_offset_mapD(2) [OF assms(1,2)] assms(3)
  by (auto simp: filter_id_conv in_eq_def cell_eq_def)

lemma remove_cell_purge:
  assumes "wf_offset_map m"
  shows "remove_cell x m = purge [x] m"
proof (cases "pt_lookup m (c_offset x)")
  case None
  then have nk: "\<forall>kb \<in> set m. fst kb \<noteq> c_offset x"
    by (force simp: pt_lookup_def map_of_eq_None_iff)
  have "map (\<lambda>kb. (fst kb, filter (\<lambda>y. \<not> in_eq y [x]) (snd kb))) m = m"
    using nk purge_single_other [OF assms] by (intro map_idI) auto
  moreover have "filter (\<lambda>kb. snd kb \<noteq> []) m = m"
    using wf_offset_mapD(1) [OF assms] by (simp add: filter_id_conv)
  ultimately show ?thesis using None by (simp add: remove_cell_def purge_def)
next
  case (Some b)
  let ?k = "c_offset x"
  let ?b' = "filter (\<lambda>y. \<not> cell_eq y x) b"
  have kb: "(?k, b) \<in> set m" using Some assms by (simp add: pt_lookup_iff)
  have srt: "sorted_wrt (<) (map fst m)" using assms by (simp add: wf_offset_map_def)
  have uniq: "\<And>kb. kb \<in> set m \<Longrightarrow> fst kb = ?k \<Longrightarrow> kb = (?k, b)"
    using eq_key_imp_eq_value [OF wf_distinct [OF assms] _ kb] by (metis prod.collapse)
  have b': "filter (\<lambda>y. \<not> in_eq y [x]) b = ?b'"
    by (simp add: in_eq_def cell_eq_def eq_commute)
  have mp: "map (\<lambda>kb. (fst kb, filter (\<lambda>y. \<not> in_eq y [x]) (snd kb))) m
          = map (\<lambda>kb. if fst kb = ?k then (?k, ?b') else kb) m"
  proof (rule map_cong [OF refl])
    fix kb assume "kb \<in> set m"
    then show "(fst kb, filter (\<lambda>y. \<not> in_eq y [x]) (snd kb))
             = (if fst kb = ?k then (?k, ?b') else kb)"
      using uniq [of kb] purge_single_other [OF assms, of kb x] b' by (cases kb) auto
  qed
  have ne: "\<And>kb. kb \<in> set m \<Longrightarrow> snd kb \<noteq> []"
    using wf_offset_mapD(1) [OF assms] by simp
  show ?thesis
  proof (cases "length (filter (\<lambda>y. cell_eq y x) b) > 0")
    case False
    then have "?b' = b" by (auto simp: filter_id_conv filter_empty_conv)
    then have "map (\<lambda>kb. if fst kb = ?k then (?k, ?b') else kb) m = m"
      using uniq by (intro map_idI) auto
    then have "purge [x] m = m"
      using ne by (simp add: purge_def mp filter_id_conv)
    then show ?thesis using Some False by (simp add: remove_cell_def set_erase_def)
  next
    case True
    show ?thesis
    proof (cases "?b' = []")
      case False
      have "filter (\<lambda>kb. snd kb \<noteq> []) (map (\<lambda>kb. if fst kb = ?k then (?k, ?b') else kb) m)
            = map (\<lambda>kb. if fst kb = ?k then (?k, ?b') else kb) m"
        using ne False by (auto simp: filter_id_conv)
      then show ?thesis
        using Some True False pt_insert_remove [OF srt kb, of ?b']
        by (simp add: remove_cell_def set_erase_def purge_def mp Let_def)
    next
      case e: True
      have "filter (\<lambda>kb. snd kb \<noteq> []) (map (\<lambda>kb. if fst kb = ?k then (?k, ?b') else kb) m)
            = filter (\<lambda>kb. fst kb \<noteq> ?k) m"
        using ne e by (induction m) auto
      then show ?thesis
        using Some True e
        by (simp add: remove_cell_def set_erase_def purge_def mp Let_def pt_remove_def)
    qed
  qed
qed

lemma wf_purge: "wf_offset_map m \<Longrightarrow> wf_offset_map (purge S m)"
proof -
  assume w: "wf_offset_map m"
  have "map fst (purge S m)
      = map fst (filter (\<lambda>kb. filter (\<lambda>x. \<not> in_eq x S) (snd kb) \<noteq> []) m)"
    by (induction m) (auto simp: purge_def)
  then have "sorted_wrt (<) (map fst (purge S m))"
    using w by (simp add: wf_offset_map_def sorted_wrt_map sorted_wrt_filter)
  moreover have "list_all wf_bucket (purge S m)"
    using w by (auto simp: wf_offset_map_def purge_def list_all_iff wf_bucket_def)
  ultimately show ?thesis by (simp add: wf_offset_map_def)
qed

lemma purge_Nil [simp]: "wf_offset_map m \<Longrightarrow> purge [] m = m"
  using wf_offset_mapD(1) [of m] by (simp add: purge_def filter_id_conv)

lemma in_eq_Cons: "in_eq y (x # S) = (in_eq y [x] \<or> in_eq y S)"
  by (auto simp: in_eq_def)

lemma purge_purge: "purge S (purge [x] m) = purge (x # S) m"
proof -
  have key: "\<And>b. filter (\<lambda>y. \<not> in_eq y (x # S)) b
                = filter (\<lambda>y. \<not> in_eq y S) (filter (\<lambda>y. \<not> in_eq y [x]) b)"
    by (auto simp: in_eq_def intro: filter_cong)
  show ?thesis
    by (induction m) (auto simp: purge_def key filter_empty_conv)
qed

lemma remove_cells_purge: "wf_offset_map m \<Longrightarrow> remove_cells S m = purge S m"
proof (induction S arbitrary: m)
  case Nil
  then show ?case by (simp add: remove_cells_def)
next
  case (Cons x S)
  have "remove_cells (x # S) m = remove_cells S (remove_cell x m)"
    by (simp add: remove_cells_def)
  also have "\<dots> = purge S (purge [x] m)"
    using Cons by (simp add: remove_cell_purge wf_purge)
  finally show ?case by (simp add: purge_purge)
qed

lemma below_purge: "below (purge S m) off = residue S (below m off)"
  by (simp add: below_def purge_def residue_def filter_map comp_def rev_filter rev_map
      filter_filter conj_commute)

lemma above_purge: "above (purge S m) off = residue S (above m off)"
  by (simp add: above_def purge_def residue_def filter_map comp_def filter_filter conj_commute)

lemma map_of_purge:
  "distinct (map fst m) \<Longrightarrow> map_of m k = Some b \<Longrightarrow>
   map_of (purge S m) k
     = (if filter (\<lambda>x. \<not> in_eq x S) b = [] then None else Some (filter (\<lambda>x. \<not> in_eq x S) b))"
proof (induction m)
  case Nil
  then show ?case by simp
next
  case (Cons a m)
  show ?case
  proof (cases "fst a = k")
    case True
    then have "k \<notin> fst ` set (purge S m)"
      using Cons.prems(1) by (force simp: purge_def)
    then have "map_of (purge S m) k = None"
      by (simp add: map_of_eq_None_iff)
    then show ?thesis using True Cons.prems(2) by (cases a) (auto simp: purge_def)
  next
    case False
    then show ?thesis using Cons by (cases a) (auto simp: purge_def)
  qed
qed

subsection \<open>Inserting a cell into a well-formed map\<close>

lemma filter_lt_pt_insert:
  "filter (\<lambda>kb. fst kb < k) (pt_insert k v m) = filter (\<lambda>kb. fst kb < k) m"
  by (induction m) auto

lemma filter_gt_pt_insert:
  "filter (\<lambda>kb. k < fst kb) (pt_insert k v m) = filter (\<lambda>kb. k < fst kb) m"
  by (induction m) auto

lemma filter_lt_pt_remove:
  "filter (\<lambda>kb. fst kb < k) (pt_remove k m) = filter (\<lambda>kb. fst kb < k) m"
  by (induction m) (auto simp: pt_remove_def)

lemma filter_gt_pt_remove:
  "filter (\<lambda>kb. k < fst kb) (pt_remove k m) = filter (\<lambda>kb. k < fst kb) m"
  by (induction m) (auto simp: pt_remove_def)

lemma map_of_pt_insert: "map_of (pt_insert k v m) k = Some v"
  by (induction m) auto

lemma set_pt_insert: "set (pt_insert k v m) \<subseteq> insert (k, v) (set m)"
  by (induction m) (auto split: if_splits)

lemma sorted_pt_insert:
  "sorted_wrt (<) (map fst m) \<Longrightarrow> sorted_wrt (<) (map fst (pt_insert k v m))"
proof (induction m)
  case Nil
  then show ?case by simp
next
  case (Cons a m)
  have sub: "fst ` set (pt_insert k v m) \<subseteq> insert k (fst ` set m)"
    using set_pt_insert [of k v m] by force
  show ?case
  proof (cases "k < fst a")
    case True
    then show ?thesis using Cons.prems by (cases a) auto
  next
    case False
    note nlt = this
    show ?thesis
    proof (cases "k = fst a")
      case True
      then show ?thesis using Cons.prems by (cases a) auto
    next
      case False
      then have lt: "fst a < k" using nlt by simp
      have "\<forall>kb \<in> set (pt_insert k v m). fst a < fst kb"
        using set_pt_insert [of k v m] lt Cons.prems by auto
      then show ?thesis
        using Cons False nlt by (cases a) auto
    qed
  qed
qed

lemma sorted_pt_remove:
  "sorted_wrt (<) (map fst m) \<Longrightarrow> sorted_wrt (<) (map fst (pt_remove k m))"
  by (simp add: pt_remove_def sorted_wrt_map sorted_wrt_filter)

lemma cell_less_total: "\<not> cell_less x y \<Longrightarrow> \<not> cell_less y x \<Longrightarrow> cell_eq y x"
  by (auto simp: cell_less_def cell_eq_def split: if_splits)

lemma set_insert_set:
  "set (fst (set_insert x b)) = (if snd (set_insert x b) then insert x (set b) else set b)"
  by (induction b) (auto simp: Let_def)

lemma set_insert_found: "\<not> snd (set_insert x b) \<Longrightarrow> in_eq x b \<and> fst (set_insert x b) = b"
  by (induction b) (auto simp: Let_def in_eq_def dest: cell_less_total split: if_splits)

lemma set_insert_fresh: "\<not> in_eq x b \<Longrightarrow> snd (set_insert x b)"
  using set_insert_found by blast

lemma at_bucket_cells: "x \<in> set (at_bucket m k) \<Longrightarrow> x \<in> cells_of m"
proof -
  assume "x \<in> set (at_bucket m k)"
  then obtain b where "map_of m k = Some b" "x \<in> set b"
    by (cases "map_of m k") (auto simp: at_bucket_def)
  then have "(k, b) \<in> set m" "x \<in> set b"
    by (auto dest: map_of_SomeD)
  then show ?thesis by (force simp: cells_of_def)
qed

lemma all_scalars_iff: "all_scalars m = (\<forall>x \<in> cells_of m. has_scalar x)"
  by (auto simp: all_scalars_def cells_of_def list_all_iff)

lemma cells_of_purge: "cells_of (purge S m) \<subseteq> cells_of m"
  by (auto simp: cells_of_def purge_def)

lemma wf_offset_map_intro:
  "sorted_wrt (<) (map fst m) \<Longrightarrow>
   (\<And>kb. kb \<in> set m \<Longrightarrow> snd kb \<noteq> [] \<and> (\<forall>x \<in> set (snd kb). c_offset x = fst kb)) \<Longrightarrow>
   wf_offset_map m"
  by (auto simp: wf_offset_map_def wf_bucket_def list_all_iff)

lemma insert_cell_wf:
  assumes wf: "wf_offset_map m" and ok: "sanity \<longrightarrow> has_scalar x"
  shows "\<exists>m'. insert_cell x sanity m = Inr m' \<and> wf_offset_map m'
      \<and> below m' (c_offset x) = below m (c_offset x)
      \<and> above m' (c_offset x) = above m (c_offset x)
      \<and> map_of m' (c_offset x) \<noteq> None
      \<and> set (at_bucket m' (c_offset x)) \<subseteq> insert x (set (at_bucket m (c_offset x)))
      \<and> set (at_bucket m (c_offset x)) \<subseteq> set (at_bucket m' (c_offset x))
      \<and> in_eq x (at_bucket m' (c_offset x))
      \<and> (\<not> in_eq x (at_bucket m (c_offset x)) \<longrightarrow> x \<in> set (at_bucket m' (c_offset x)))
      \<and> cells_of m' \<subseteq> insert x (cells_of m)"
proof -
  let ?k = "c_offset x"
  have srt: "sorted_wrt (<) (map fst m)" using wf by (simp add: wf_offset_map_def)
  show ?thesis
  proof (cases "pt_lookup m ?k")
    case None
    let ?m' = "pt_insert ?k [x] m"
    have r: "insert_cell x sanity m = Inr ?m'"
      using None ok by (simp add: insert_cell_def)
    have sub: "set ?m' \<subseteq> insert (?k, [x]) (set m)" by (rule set_pt_insert)
    have w: "wf_offset_map ?m'"
    proof (rule wf_offset_map_intro)
      show "sorted_wrt (<) (map fst ?m')" using srt by (rule sorted_pt_insert)
    next
      fix kb assume "kb \<in> set ?m'"
      then have "kb = (?k, [x]) \<or> kb \<in> set m" using sub by auto
      then show "snd kb \<noteq> [] \<and> (\<forall>y \<in> set (snd kb). c_offset y = fst kb)"
        using wf_bucketD [OF wf] by (cases kb) auto
    qed
    have a0: "at_bucket m ?k = []"
      using None by (simp add: at_bucket_def pt_lookup_def)
    have a1: "at_bucket ?m' ?k = [x]"
      by (simp add: at_bucket_def map_of_pt_insert)
    have c: "cells_of ?m' \<subseteq> insert x (cells_of m)"
      using sub by (fastforce simp: cells_of_def)
    show ?thesis
      using r w a0 a1 c
      by (simp add: below_def above_def filter_lt_pt_insert filter_gt_pt_insert map_of_pt_insert
          in_eq_def)
  next
    case (Some cells)
    have kb: "(?k, cells) \<in> set m" using Some wf by (simp add: pt_lookup_iff)
    have a0: "at_bucket m ?k = cells"
      using Some by (simp add: at_bucket_def pt_lookup_def)
    show ?thesis
    proof (cases "snd (set_insert x cells)")
      case False
      then have r: "insert_cell x sanity m = Inr m"
        using Some ok by (simp add: insert_cell_def Let_def)
      have "in_eq x cells" using False set_insert_found by blast
      then show ?thesis
        using r wf a0 Some by (auto simp: pt_lookup_def)
    next
      case True
      let ?b' = "fst (set_insert x cells)"
      let ?m' = "pt_insert ?k ?b' (pt_remove ?k m)"
      have r: "insert_cell x sanity m = Inr ?m'"
        using Some ok True by (simp add: insert_cell_def Let_def)
      have sb: "set ?b' = insert x (set cells)"
        using True by (simp add: set_insert_set)
      have sub: "set ?m' \<subseteq> insert (?k, ?b') (set m)"
        using set_pt_insert [of ?k ?b' "pt_remove ?k m"] by (auto simp: pt_remove_def)
      have w: "wf_offset_map ?m'"
      proof (rule wf_offset_map_intro)
        show "sorted_wrt (<) (map fst ?m')"
          using srt by (intro sorted_pt_insert sorted_pt_remove)
      next
        fix kb' assume "kb' \<in> set ?m'"
        then have "kb' = (?k, ?b') \<or> kb' \<in> set m" using sub by auto
        then show "snd kb' \<noteq> [] \<and> (\<forall>y \<in> set (snd kb'). c_offset y = fst kb')"
          using wf_bucketD [OF wf] wf_bucketD [OF wf kb] sb by (cases kb') auto
      qed
      have a1: "at_bucket ?m' ?k = ?b'"
        by (simp add: at_bucket_def map_of_pt_insert)
      have c: "cells_of ?m' \<subseteq> insert x (cells_of m)"
      proof
        fix y assume "y \<in> cells_of ?m'"
        then obtain kb' where k': "kb' \<in> set ?m'" "y \<in> set (snd kb')"
          by (auto simp: cells_of_def)
        then have "kb' = (?k, ?b') \<or> kb' \<in> set m" using sub by auto
        then show "y \<in> insert x (cells_of m)"
          using k'(2) sb kb by (force simp: cells_of_def)
      qed
      show ?thesis
        using r w a0 a1 c sb
        by (auto simp: below_def above_def filter_lt_pt_insert filter_gt_pt_insert
            filter_lt_pt_remove filter_gt_pt_remove map_of_pt_insert in_eq_def)
    qed
  qed
qed

subsection \<open>The overlap query on a well-formed map\<close>

lemma scan_lb_gscan:
  "scan_lb c off sz b out = gscan (\<lambda>x. overlap x off sz) (\<lambda>x. \<not> cell_eq x c) b (out, False)"
  by (simp add: scan_lb_def gscan_def)

lemma scan_ub_gscan:
  "scan_ub off sz b out = gscan (\<lambda>x. overlap x off sz) (\<lambda>x. True) b (out, False)"
  by (simp add: scan_ub_def gscan_def cong: if_cong)

lemma scan_rest_gscan:
  "scan_rest c off sz b out
     = gscan (\<lambda>x. \<not> cell_eq x c \<and> overlap x off sz) (\<lambda>x. \<not> cell_eq x c) b (out, False)"
proof -
  have "(\<lambda>acc x. if cell_eq x c then acc
                  else if overlap x off sz
                       then ((if \<not> cell_eq x c then push_unique x (fst acc) else fst acc), True)
                       else acc)
      = (\<lambda>acc x. if \<not> cell_eq x c \<and> overlap x off sz
                  then ((if \<not> cell_eq x c then push_unique x (fst acc) else fst acc), True)
                  else acc)"
    by (intro ext) auto
  then show ?thesis by (simp add: scan_rest_def gscan_def)
qed

lemma walk_lb_gwalk:
  "walk_lb c off sz bs out = gwalk (\<lambda>x. overlap x off sz) (\<lambda>x. \<not> cell_eq x c) bs out"
  by (induction bs arbitrary: out) (simp_all add: scan_lb_gscan Let_def)

lemma walk_rest_gwalk:
  "walk_rest c off sz bs out
     = gwalk (\<lambda>x. \<not> cell_eq x c \<and> overlap x off sz) (\<lambda>x. \<not> cell_eq x c) bs out"
  by (induction bs arbitrary: out) (simp_all add: scan_rest_gscan Let_def)

lemma walk_ub_gwalk:
  "fst (walk_ub off sz bs out) = gwalk (\<lambda>x. overlap x off sz) (\<lambda>x. True) bs out"
  by (induction bs arbitrary: out) (simp_all add: scan_ub_gscan Let_def)

lemma walk_ub_stops:
  "bs = [] \<or> \<not> (\<exists>x \<in> set (hd bs). overlap x off sz) \<Longrightarrow> snd (walk_ub off sz bs out) = 0"
  by (cases bs) (simp_all add: scan_ub_gscan gscan_continue Let_def)

lemma get_cell_find:
  "get_cell m off sz =
     (case find (\<lambda>y. cell_eq y (cell_of_size off sz)) (at_bucket m off) of
        Some c \<Rightarrow> c | None \<Rightarrow> null_cell)"
  by (simp add: get_cell_def pt_lookup_def at_bucket_def set_find_def split: option.splits)

lemma is_null_null_cell [simp]: "is_null null_cell"
  by (simp add: is_null_def null_cell_def)

lemma get_cell_found:
  assumes "\<not> is_null (get_cell m off sz)"
  shows "get_cell m off sz \<in> set (at_bucket m off)
       \<and> cell_eq (get_cell m off sz) (cell_of_size off sz)
       \<and> map_of m off = Some (at_bucket m off)"
proof -
  obtain c where f: "find (\<lambda>y. cell_eq y (cell_of_size off sz)) (at_bucket m off) = Some c"
    using assms by (cases "find (\<lambda>y. cell_eq y (cell_of_size off sz)) (at_bucket m off)")
      (auto simp: get_cell_find)
  then have g: "get_cell m off sz = c" by (simp add: get_cell_find)
  have "c \<in> set (at_bucket m off) \<and> cell_eq c (cell_of_size off sz)"
    using f by (auto simp: find_Some_iff in_set_conv_nth)
  moreover have "map_of m off = Some (at_bucket m off)"
    using calculation by (cases "map_of m off") (auto simp: at_bucket_def)
  ultimately show ?thesis using g by simp
qed

lemma get_cell_unique:
  assumes "c \<in> set b" "cell_eq c (cell_of_size off sz)"
    and "\<forall>y \<in> set b. cell_eq y (cell_of_size off sz) \<longrightarrow> y = c"
    and "at_bucket m off = b"
  shows "get_cell m off sz = c"
proof -
  have "find (\<lambda>y. cell_eq y (cell_of_size off sz)) b \<noteq> None"
    using assms(1,2) by (auto simp: find_None_iff)
  then obtain y where y: "find (\<lambda>y. cell_eq y (cell_of_size off sz)) b = Some y" by auto
  then have "y \<in> set b \<and> cell_eq y (cell_of_size off sz)"
    by (auto simp: find_Some_iff in_set_conv_nth)
  then have "y = c" using assms(3) by simp
  then show ?thesis using y assms(4) by (simp add: get_cell_find)
qed

lemma get_cell_absent:
  assumes "is_null (get_cell m off sz)" "\<not> (off = 0 \<and> sz = 0)"
  shows "\<not> in_eq (cell_of_size off sz) (at_bucket m off)"
proof
  assume "in_eq (cell_of_size off sz) (at_bucket m off)"
  then have "find (\<lambda>y. cell_eq y (cell_of_size off sz)) (at_bucket m off) \<noteq> None"
    by (auto simp: find_None_iff in_eq_def)
  then obtain y where y: "find (\<lambda>y. cell_eq y (cell_of_size off sz)) (at_bucket m off) = Some y"
    by auto
  then have "cell_eq y (cell_of_size off sz)" by (auto simp: find_Some_iff)
  then have "\<not> is_null y" using assms(2) by (auto simp: cell_eq_def cell_of_size_def is_null_def)
  then show False using assms(1) y by (simp add: get_cell_find)
qed

lemma map_decompose:
  fixes m :: offset_map
  shows "sorted_wrt (<) (map fst m) \<Longrightarrow> map_of m off = Some b \<Longrightarrow>
   m = filter (\<lambda>kb. fst kb < off) m @ (off, b) # filter (\<lambda>kb. off < fst kb) m"
proof (induction m)
  case Nil
  then show ?case by simp
next
  case (Cons a m)
  show ?case
  proof (cases "fst a = off")
    case True
    have gt: "\<forall>kb \<in> set m. off < fst kb" using Cons.prems(1) True by auto
    have "\<And>kb. kb \<in> set m \<Longrightarrow> \<not> fst kb < off"
      using gt by force
    then have "filter (\<lambda>kb. fst kb < off) m = []"
      by (simp add: filter_empty_conv)
    moreover have "filter (\<lambda>kb. off < fst kb) m = m"
      using gt by (simp add: filter_id_conv)
    ultimately have "filter (\<lambda>kb. fst kb < off) m = []" "filter (\<lambda>kb. off < fst kb) m = m"
      by simp_all
    then show ?thesis using True Cons.prems(2) by (cases a) auto
  next
    case False
    then have mo: "map_of m off = Some b" using Cons.prems(2) by (cases a) auto
    then have "off \<in> fst ` set m" by (metis map_of_eq_None_iff option.distinct(1))
    then have "fst a < off" using Cons.prems(1) by auto
    then show ?thesis using Cons.IH mo Cons.prems(1) by (cases a) auto
  qed
qed

lemma overlap_walks_positions:
  fixes m :: offset_map
  assumes srt: "sorted_wrt (<) (map fst m)" and at: "map_of m off = Some b"
  shows "length (takeWhile (\<lambda>kb. fst kb < off) m) \<noteq> length m"
    and "rev (map snd (take (length (takeWhile (\<lambda>kb. fst kb < off) m) + 1) m)) = b # below m off"
    and "length (takeWhile (\<lambda>kb. \<not> off < fst kb) m) = length (takeWhile (\<lambda>kb. fst kb < off) m) + 1"
    and "map snd (drop (length (takeWhile (\<lambda>kb. fst kb < off) m) + 1) m) = above m off"
proof -
  define pre where "pre = filter (\<lambda>kb. fst kb < off) m"
  define post where "post = filter (\<lambda>kb. off < fst kb) m"
  have d: "m = pre @ (off, b) # post"
    unfolding pre_def post_def using srt at by (rule map_decompose)
  have pl: "\<And>kb. kb \<in> set pre \<Longrightarrow> fst kb < off" by (simp add: pre_def)
  have pg: "\<And>kb. kb \<in> set post \<Longrightarrow> off < fst kb" by (simp add: post_def)
  have bl: "below m off = rev (map snd pre)" by (simp add: below_def pre_def)
  have ab: "above m off = map snd post" by (simp add: above_def post_def)
  have t1: "takeWhile (\<lambda>kb. fst kb < off) (pre @ (off, b) # post) = pre"
    using pl by (simp add: takeWhile_append2)
  have t2: "takeWhile (\<lambda>kb. \<not> off < fst kb) (pre @ (off, b) # post) = pre @ [(off, b)]"
  proof -
    have "takeWhile (\<lambda>kb. \<not> off < fst kb) (pre @ (off, b) # post)
        = pre @ takeWhile (\<lambda>kb. \<not> off < fst kb) ((off, b) # post)"
      using pl by (intro takeWhile_append2) force
    also have "\<dots> = pre @ [(off, b)]"
      using pg by (cases post) auto
    finally show ?thesis .
  qed
  show "length (takeWhile (\<lambda>kb. fst kb < off) m) \<noteq> length m"
    unfolding d t1 by simp
  show "rev (map snd (take (length (takeWhile (\<lambda>kb. fst kb < off) m) + 1) m)) = b # below m off"
    unfolding bl unfolding d t1 by simp
  show "length (takeWhile (\<lambda>kb. \<not> off < fst kb) m)
      = length (takeWhile (\<lambda>kb. fst kb < off) m) + 1"
    unfolding d t1 t2 by simp
  show "map snd (drop (length (takeWhile (\<lambda>kb. fst kb < off) m) + 1) m) = above m off"
    unfolding ab unfolding d t1 by simp
qed

lemma get_overlap_cells_found:
  assumes wf: "wf_offset_map m" and nn: "\<not> is_null (get_cell m off sz)"
  shows "get_overlap_cells off sz out m
     = (overlap_walks (get_cell m off sz) off sz (at_bucket m off) (below m off) (above m off) out, m)"
proof -
  have srt: "sorted_wrt (<) (map fst m)" using wf by (simp add: wf_offset_map_def)
  have at: "map_of m off = Some (at_bucket m off)" using get_cell_found [OF nn] by simp
  note p = overlap_walks_positions [OF srt at, folded Suc_eq_plus1]
  have p4: "map snd (take k (drop (Suc (length (takeWhile (\<lambda>kb. fst kb < off) m))) m))
      = take k (above m off)" for k
    unfolding take_map [symmetric] p(4) ..
  show ?thesis
    using nn p(1)
    by (simp add: get_overlap_cells_def Let_def overlap_walks_def p(2) p(3) p(4) p4
        del: walk_lb.simps)
qed

lemma get_overlap_cells_added:
  assumes nn: "is_null (get_cell m off sz)"
    and ins: "insert_cell (cell_of_size off sz) False m = Inr m1"
    and wf1: "wf_offset_map m1"
    and at: "map_of m1 off = Some b"
  shows "get_overlap_cells off sz out m
     = (overlap_walks (cell_of_size off sz) off sz b (below m1 off) (above m1 off) out,
        remove_cell (cell_of_size off sz) m1)"
proof -
  have srt: "sorted_wrt (<) (map fst m1)" using wf1 by (simp add: wf_offset_map_def)
  note p = overlap_walks_positions [OF srt at, folded Suc_eq_plus1]
  have p4: "map snd (take k (drop (Suc (length (takeWhile (\<lambda>kb. fst kb < off) m1))) m1))
      = take k (above m1 off)" for k
    unfolding take_map [symmetric] p(4) ..
  show ?thesis
    using nn p(1)
    by (simp add: get_overlap_cells_def Let_def ins overlap_walks_def p(2) p(3) p(4) p4
        del: walk_lb.simps)
qed

lemma overlap_walks_empty:
  assumes "\<forall>x \<in> set b. overlap x off sz \<longrightarrow> cell_eq x c"
    and "(\<exists>x \<in> set b. overlap x off sz) \<longrightarrow>
           bel = [] \<or> \<not> (\<exists>x \<in> set (hd bel). overlap x off sz)"
    and "abv = [] \<or> \<not> (\<exists>x \<in> set (hd abv). overlap x off sz)"
  shows "overlap_walks c off sz b bel abv [] = []"
proof -
  let ?P = "\<lambda>x. overlap x off sz"
  let ?Q = "\<lambda>x. \<not> cell_eq x c"
  have e: "{x \<in> set b. ?P x \<and> ?Q x} = {}"
    using assms(1) by blast
  have "set (fst (gscan ?P ?Q b ([], False))) \<subseteq> {x \<in> set b. ?P x \<and> ?Q x}"
    using gscan_from [of ?P ?Q b "([], False)"] by simp
  then have s: "fst (gscan ?P ?Q b ([], False)) = []" unfolding e by simp
  have "gwalk ?P ?Q bel [] = []"
    if "snd (gscan ?P ?Q b ([], False))"
    using that assms(2) by (intro gwalk_stops) (simp add: gscan_continue)
  then have l: "walk_lb c off sz (b # bel) [] = []"
    using s by (simp add: walk_lb_gwalk Let_def)
  have u1: "fst (walk_ub off sz abv []) = []"
    using assms(3) by (simp add: walk_ub_gwalk gwalk_stops)
  have u2: "snd (walk_ub off sz abv []) = 0"
    using assms(3) by (rule walk_ub_stops)
  show ?thesis
    unfolding overlap_walks_def Let_def l u1 u2 by simp
qed

lemma overlap_walks_facts:
  fixes c off sz b bel abv
  defines "S \<equiv> overlap_walks c off sz b bel abv []"
  shows "\<forall>y \<in> set S. overlap y off sz"
    and "set S \<subseteq> {x \<in> set b \<union> \<Union> (set ` set bel). \<not> cell_eq x c} \<union> \<Union> (set ` set abv)"
    and "\<forall>x \<in> set b. overlap x off sz \<and> \<not> cell_eq x c \<longrightarrow> in_eq x S"
    and "(\<exists>x \<in> set b. overlap x off sz) \<longrightarrow>
           (\<exists>out'. set (gwalk (\<lambda>x. overlap x off sz) (\<lambda>x. \<not> cell_eq x c) bel out') \<subseteq> set S)"
    and "\<exists>out'. set (gwalk (\<lambda>x. overlap x off sz) (\<lambda>x. True) abv out') \<subseteq> set S"
proof -
  let ?P = "\<lambda>x. overlap x off sz"
  let ?Q = "\<lambda>x. \<not> cell_eq x c"
  let ?R = "\<lambda>x. \<not> cell_eq x c \<and> overlap x off sz"
  define out1 where "out1 = gwalk ?P ?Q (b # bel) []"
  define out2 where "out2 = gwalk ?P (\<lambda>x. True) abv out1"
  define k where "k = snd (walk_ub off sz abv out1)"
  have S: "S = gwalk ?R ?Q (take k abv) out2"
    by (simp add: S_def overlap_walks_def Let_def walk_lb_gwalk walk_rest_gwalk walk_ub_gwalk
        out1_def out2_def k_def del: gwalk.simps)
  have m12: "set out1 \<subseteq> set out2" unfolding out2_def by (rule gwalk_mono)
  have m2S: "set out2 \<subseteq> set S" unfolding S by (rule gwalk_mono)
  have f1: "set out1 \<subseteq> {x \<in> set b \<union> \<Union> (set ` set bel). ?P x \<and> ?Q x}"
    using gwalk_from [of ?P ?Q "b # bel" "[]"] by (auto simp: out1_def simp del: gwalk.simps)
  have f2: "set out2 \<subseteq> set out1 \<union> {x \<in> \<Union> (set ` set abv). ?P x}"
    using gwalk_from [of ?P "\<lambda>x. True" abv out1] by (auto simp: out2_def)
  have f3: "set S \<subseteq> set out2 \<union> {x \<in> \<Union> (set ` set abv). ?R x \<and> ?Q x}"
    using gwalk_from [of ?R ?Q "take k abv" out2] by (auto simp: S dest: in_set_takeD)
  show "\<forall>y \<in> set S. overlap y off sz"
    using f1 f2 f3 by auto
  show "set S \<subseteq> {x \<in> set b \<union> \<Union> (set ` set bel). \<not> cell_eq x c} \<union> \<Union> (set ` set abv)"
    using f1 f2 f3 by auto
  have c1: "\<forall>x \<in> set b. ?P x \<and> ?Q x \<longrightarrow> in_eq x (fst (gscan ?P ?Q b ([], False)))"
    by (simp add: gscan_covers)
  have g1: "set (fst (gscan ?P ?Q b ([], False))) \<subseteq> set out1"
    using gwalk_mono [of "fst (gscan ?P ?Q b ([], False))" ?P ?Q bel]
    by (auto simp: out1_def Let_def)
  show "\<forall>x \<in> set b. overlap x off sz \<and> \<not> cell_eq x c \<longrightarrow> in_eq x S"
    using c1 g1 m12 m2S by (meson in_eq_mono order_trans)
  show "(\<exists>x \<in> set b. overlap x off sz) \<longrightarrow>
          (\<exists>out'. set (gwalk ?P ?Q bel out') \<subseteq> set S)"
  proof
    assume "\<exists>x \<in> set b. overlap x off sz"
    then have "snd (gscan ?P ?Q b ([], False))" by (simp add: gscan_continue)
    then have "out1 = gwalk ?P ?Q bel (fst (gscan ?P ?Q b ([], False)))"
      by (simp add: out1_def Let_def)
    then have "set (gwalk ?P ?Q bel (fst (gscan ?P ?Q b ([], False)))) \<subseteq> set S"
      using m12 m2S by simp
    then show "\<exists>out'. set (gwalk ?P ?Q bel out') \<subseteq> set S" by blast
  qed
  show "\<exists>out'. set (gwalk ?P (\<lambda>x. True) abv out') \<subseteq> set S"
    using m2S out2_def by blast
qed

lemma below_cells:
  assumes "wf_offset_map m" "bk \<in> set (below m off)"
  shows "bk \<noteq> []" and "\<And>x. x \<in> set bk \<Longrightarrow> c_offset x < off" and "set bk \<subseteq> cells_of m"
proof -
  from assms(2) obtain kb where kb: "kb \<in> set m" "fst kb < off" "bk = snd kb"
    by (auto simp: below_def)
  show "bk \<noteq> []" using wf_offset_mapD(1) [OF assms(1) kb(1)] kb(3) by simp
  show "c_offset x < off" if "x \<in> set bk" for x
    using wf_offset_mapD(2) [OF assms(1) kb(1)] kb(2) kb(3) that by simp
  show "set bk \<subseteq> cells_of m" using kb by (auto simp: cells_of_def)
qed

lemma above_cells:
  assumes "wf_offset_map m" "bk \<in> set (above m off)"
  shows "bk \<noteq> []" and "\<And>x. x \<in> set bk \<Longrightarrow> off < c_offset x" and "set bk \<subseteq> cells_of m"
proof -
  from assms(2) obtain kb where kb: "kb \<in> set m" "off < fst kb" "bk = snd kb"
    by (auto simp: above_def)
  show "bk \<noteq> []" using wf_offset_mapD(1) [OF assms(1) kb(1)] kb(3) by simp
  show "off < c_offset x" if "x \<in> set bk" for x
    using wf_offset_mapD(2) [OF assms(1) kb(1)] kb(2) kb(3) that by simp
  show "set bk \<subseteq> cells_of m" using kb by (auto simp: cells_of_def)
qed

lemma purge_keys: "fst ` set (purge S m) \<subseteq> fst ` set m"
proof
  fix k
  assume "k \<in> fst ` set (purge S m)"
  then obtain b where "(k, b) \<in> set (purge S m)" by fastforce
  then obtain b' where "(k, b') \<in> set m" by (auto simp: purge_def)
  then show "k \<in> fst ` set m" by (rule rev_image_eqI) simp
qed

lemma at_bucket_purge:
  assumes "distinct (map fst m)"
  shows "at_bucket (purge S m) k = filter (\<lambda>x. \<not> in_eq x S) (at_bucket m k)"
proof (cases "map_of m k")
  case None
  then have "k \<notin> fst ` set m" by (simp add: map_of_eq_None_iff)
  then have "k \<notin> fst ` set (purge S m)" using purge_keys [of S m] by blast
  then have "map_of (purge S m) k = None" by (simp add: map_of_eq_None_iff)
  then show ?thesis using None by (simp add: at_bucket_def)
next
  case (Some b)
  show ?thesis
    using map_of_purge [OF assms Some, of S] Some by (simp add: at_bucket_def)
qed

lemma cells_of_purge_strong: "cells_of (purge S m) \<subseteq> {x \<in> cells_of m. \<not> in_eq x S}"
proof
  fix x
  assume "x \<in> cells_of (purge S m)"
  then obtain kb where kb: "kb \<in> set (purge S m)" "x \<in> set (snd kb)"
    by (auto simp: cells_of_def)
  then obtain kb' where kb': "kb' \<in> set m" "snd kb = filter (\<lambda>x. \<not> in_eq x S) (snd kb')"
    by (auto simp: purge_def)
  then have "x \<in> set (snd kb')" "\<not> in_eq x S" using kb(2) by simp_all
  then show "x \<in> {x \<in> cells_of m. \<not> in_eq x S}"
    using kb'(1) by (auto simp: cells_of_def)
qed

lemma residue_skip:
  assumes "\<forall>b \<in> set bs. \<forall>x \<in> set b. \<not> cell_eq t x"
  shows "residue (t # S) bs = residue S bs"
proof -
  have "filter (\<lambda>x. \<not> in_eq x (t # S)) b = filter (\<lambda>x. \<not> in_eq x S) b" if "b \<in> set bs" for b
    using assms that by (intro filter_cong) (auto simp: in_eq_def)
  then have "map (filter (\<lambda>x. \<not> in_eq x (t # S))) bs = map (filter (\<lambda>x. \<not> in_eq x S)) bs"
    by (intro map_cong) auto
  then show ?thesis unfolding residue_def by (rule arg_cong)
qed

lemma find_filter_pass:
  "(\<forall>y \<in> set b. Pf y \<longrightarrow> F y) \<Longrightarrow> find Pf (filter F b) = find Pf b"
  by (induction b) auto

lemma find_unique:
  "x \<in> set b \<Longrightarrow> Pf x \<Longrightarrow> (\<forall>y \<in> set b. Pf y \<longrightarrow> y = x) \<Longrightarrow> find Pf b = Some x"
proof (induction b)
  case Nil
  then show ?case by simp
next
  case (Cons z b)
  show ?case
  proof (cases "Pf z")
    case True
    then have "z = x" using Cons.prems(3) by simp
    then show ?thesis using True by simp
  next
    case False
    then have a: "x \<in> set b" using Cons.prems(1) Cons.prems(2) by auto
    have b: "\<forall>y \<in> set b. Pf y \<longrightarrow> y = x" using Cons.prems(3) by simp
    have "find Pf b = Some x" using a Cons.prems(2) b by (rule Cons.IH)
    then show ?thesis using False by simp
  qed
qed

lemma get_index_idem:
  "get_index a off sz (snd (get_index a off sz im))
     = (fst (get_index a off sz im), snd (get_index a off sz im))"
  by (cases "map_of im (v_name a, off, sz)") (simp_all add: get_index_def map_add_def)

lemma is_null_cell_eq: "cell_eq x y \<Longrightarrow> is_null x = is_null y"
  by (simp add: cell_eq_def is_null_def)

lemma get_cell_null_key:
  assumes "is_null (cell_of_size off sz)"
  shows "is_null (get_cell m off sz)"
proof (cases "find (\<lambda>y. cell_eq y (cell_of_size off sz)) (at_bucket m off)")
  case None
  then show ?thesis by (simp add: get_cell_find)
next
  case (Some y)
  then have "cell_eq y (cell_of_size off sz)" by (auto simp: find_Some_iff)
  then show ?thesis using Some assms by (simp add: get_cell_find is_null_cell_eq)
qed

lemma forget_scalars_ok:
  "list_all has_scalar cs \<Longrightarrow> \<exists>d'. forget_scalars D cs d = Inr d'"
  by (induction cs arbitrary: d) (auto simp: has_scalar_def)

lemma remove_cells_Nil [simp]: "remove_cells [] m = m"
  by (simp add: remove_cells_def)

lemma mk_cell_found:
  "\<not> is_null (get_cell m off sz) \<Longrightarrow> has_scalar (get_cell m off sz) \<Longrightarrow>
   mk_cell a off sz (m, im) = Inr (get_cell m off sz, m, im)"
  by (simp add: mk_cell_def Let_def)

lemma mk_cell_create:
  fixes a :: var and im :: index_map
  assumes nn: "is_null (get_cell m off sz)" and wf: "wf_offset_map m"
  defines "c' \<equiv> cell_of_scalar off
      \<lparr> v_name = KeyVar (fst (get_index a off sz im)),
        v_type = get_array_element_type (v_type a), v_bitwidth = sz \<rparr>"
  shows "\<exists>m'. mk_cell a off sz (m, im) = Inr (c', m', snd (get_index a off sz im))
      \<and> insert_cell c' True m = Inr m'"
proof -
  have hs: "has_scalar c'" by (simp add: c'_def cell_of_scalar_def has_scalar_def)
  from insert_cell_wf [OF wf, of True c'] hs
  obtain m' where m': "insert_cell c' True m = Inr m'" by blast
  have "mk_cell a off sz (m, im) = Inr (c', m', snd (get_index a off sz im))"
    using nn hs m' by (simp add: mk_cell_def Let_def split_beta c'_def)
  then show ?thesis using m' by blast
qed

lemma walks_settle:
  fixes m0 :: offset_map and b :: "cell list"
  assumes wf: "wf_offset_map m0"
    and ceq: "cell_eq c (cell_of_size off sz)"
  defines "S \<equiv> overlap_walks c off sz b (below m0 off) (above m0 off) []"
  shows "\<forall>z \<in> set S. overlap z off sz"
    and "\<forall>z \<in> set S. \<not> cell_eq z c"
    and "set S \<subseteq> set b \<union> cells_of m0"
    and "\<forall>x \<in> set b. overlap x off sz \<and> \<not> in_eq x S \<longrightarrow> cell_eq x c"
    and "(\<exists>x \<in> set b. overlap x off sz) \<longrightarrow>
           residue S (below m0 off) = []
           \<or> \<not> (\<exists>x \<in> set (hd (residue S (below m0 off))). overlap x off sz)"
    and "residue S (above m0 off) = []
           \<or> \<not> (\<exists>x \<in> set (hd (residue S (above m0 off))). overlap x off sz)"
proof -
  let ?P = "\<lambda>x. overlap x off sz"
  let ?Q = "\<lambda>x. \<not> cell_eq x c"
  note f = overlap_walks_facts [where c = c and off = off and sz = sz and b = b
      and bel = "below m0 off" and abv = "above m0 off", folded S_def]
  have co: "c_offset c = off" using ceq by (simp add: cell_eq_def cell_of_size_def)
  have belq: "\<not> cell_eq x c" if "bk \<in> set (below m0 off)" "x \<in> set bk" for x bk
    using below_cells(2) [OF wf that(1) that(2)] co by (auto simp: cell_eq_def)
  have abvq: "\<not> cell_eq x c" if "bk \<in> set (above m0 off)" "x \<in> set bk" for x bk
    using above_cells(2) [OF wf that(1) that(2)] co by (auto simp: cell_eq_def)
  show s1: "\<forall>z \<in> set S. overlap z off sz" by (rule f(1))
  show "\<forall>z \<in> set S. \<not> cell_eq z c"
  proof
    fix z
    assume "z \<in> set S"
    then have "z \<in> {x \<in> set b \<union> \<Union> (set ` set (below m0 off)). \<not> cell_eq x c}
        \<or> z \<in> \<Union> (set ` set (above m0 off))"
      using f(2) by blast
    then show "\<not> cell_eq z c" using abvq by blast
  qed
  show "set S \<subseteq> set b \<union> cells_of m0"
  proof
    fix z
    assume "z \<in> set S"
    then have "z \<in> set b \<or> z \<in> \<Union> (set ` set (below m0 off))
        \<or> z \<in> \<Union> (set ` set (above m0 off))"
      using f(2) by blast
    then show "z \<in> set b \<union> cells_of m0"
      using below_cells(3) [OF wf] above_cells(3) [OF wf] by blast
  qed
  show "\<forall>x \<in> set b. overlap x off sz \<and> \<not> in_eq x S \<longrightarrow> cell_eq x c"
    using f(3) by blast
  have inv: "\<forall>x y. cell_eq x y \<longrightarrow> ?P x = ?P y"
    by (simp add: overlap_cell_eq)
  have ovl: "?P x" if "in_eq x S" for x
  proof -
    from that obtain z where z: "z \<in> set S" "cell_eq z x" by (auto simp: in_eq_def)
    then have "?P z" using s1 by blast
    then show ?thesis using overlap_cell_eq [OF z(2)] by simp
  qed
  show "(\<exists>x \<in> set b. overlap x off sz) \<longrightarrow>
           residue S (below m0 off) = []
           \<or> \<not> (\<exists>x \<in> set (hd (residue S (below m0 off))). overlap x off sz)"
  proof
    assume "\<exists>x \<in> set b. overlap x off sz"
    with f(4) obtain out' where o: "set (gwalk ?P ?Q (below m0 off) out') \<subseteq> set S" by blast
    show "residue S (below m0 off) = []
           \<or> \<not> (\<exists>x \<in> set (hd (residue S (below m0 off))). overlap x off sz)"
    proof (rule gwalk_residue [where P = ?P and Q = ?Q and out = out'])
      show "\<forall>b \<in> set (below m0 off). b \<noteq> []" using below_cells(1) [OF wf] by blast
      show "\<forall>b \<in> set (below m0 off). \<forall>x \<in> set b. ?P x \<longrightarrow> ?Q x" using belq by blast
      show "\<forall>x y. cell_eq x y \<longrightarrow> ?P x = ?P y" by (rule inv)
      show "set (gwalk ?P ?Q (below m0 off) out') \<subseteq> set S" by (rule o)
      show "\<forall>x \<in> \<Union> (set ` set (below m0 off)). in_eq x S \<longrightarrow> ?P x" using ovl by blast
    qed
  qed
  from f(5) obtain out' where o: "set (gwalk ?P (\<lambda>x. True) (above m0 off) out') \<subseteq> set S"
    by blast
  show "residue S (above m0 off) = []
           \<or> \<not> (\<exists>x \<in> set (hd (residue S (above m0 off))). overlap x off sz)"
  proof (rule gwalk_residue [where P = ?P and Q = "\<lambda>x. True" and out = out'])
    show "\<forall>b \<in> set (above m0 off). b \<noteq> []" using above_cells(1) [OF wf] by blast
    show "\<forall>b \<in> set (above m0 off). \<forall>x \<in> set b. ?P x \<longrightarrow> True" by simp
    show "\<forall>x y. cell_eq x y \<longrightarrow> ?P x = ?P y" by (rule inv)
    show "set (gwalk ?P (\<lambda>x. True) (above m0 off) out') \<subseteq> set S" by (rule o)
    show "\<forall>x \<in> \<Union> (set ` set (above m0 off)). in_eq x S \<longrightarrow> ?P x" using ovl by blast
  qed
qed

lemma store_map_found:
  fixes m0 :: offset_map and a :: var and im :: index_map
  assumes wf: "wf_offset_map m0" and sc: "all_scalars m0"
    and nn: "\<not> is_null (get_cell m0 off sz)"
  defines "r \<equiv> get_overlap_cells off sz [] m0"
  defines "c \<equiv> get_cell m0 off sz"
  shows "list_all has_scalar (fst r)"
    and "mk_cell a off sz (remove_cells (fst r) (snd r), im) = Inr (c, purge (fst r) m0, im)"
    and "has_scalar c"
    and "settled (purge (fst r) m0) off sz"
    and "find (\<lambda>y. cell_eq y (cell_of_size off sz)) (at_bucket (purge (fst r) m0) off) = Some c"
proof -
  let ?t = "cell_of_size off sz"
  let ?P = "\<lambda>x. overlap x off sz"
  define b where "b = at_bucket m0 off"
  define S where "S = overlap_walks c off sz b (below m0 off) (above m0 off) []"
  have cb: "c \<in> set b" and ceq: "cell_eq c ?t" and at: "map_of m0 off = Some b"
    using get_cell_found [OF nn] by (simp_all add: c_def b_def)
  have r: "r = (S, m0)"
    unfolding r_def S_def b_def c_def by (rule get_overlap_cells_found [OF wf nn])
  note w = walks_settle [OF wf ceq, where b = b, folded S_def]
  have bc: "set b \<subseteq> cells_of m0" using at_bucket_cells [of _ m0 off] by (auto simp: b_def)
  have hs: "\<forall>x \<in> cells_of m0. has_scalar x" using sc by (simp add: all_scalars_iff)
  have "set S \<subseteq> cells_of m0" using w(3) bc by blast
  then show "list_all has_scalar (fst r)" using hs by (auto simp: r list_all_iff)
  show hc: "has_scalar c" using cb bc hs by blast
  have passes: "\<not> in_eq y S" if "cell_eq y ?t" for y
  proof
    assume "in_eq y S"
    then obtain z where z: "z \<in> set S" "cell_eq z y" by (auto simp: in_eq_def)
    have "cell_eq z c"
      using cell_eq_trans [OF cell_eq_trans [OF z(2) that] cell_eq_sym [OF ceq]] .
    then show False using w(2) z(1) by blast
  qed
  have atb: "at_bucket (purge S m0) off = filter (\<lambda>x. \<not> in_eq x S) b"
    unfolding b_def by (rule at_bucket_purge [OF wf_distinct [OF wf]])
  have "get_cell m0 off sz = (case find (\<lambda>y. cell_eq y ?t) b of Some c \<Rightarrow> c | None \<Rightarrow> null_cell)"
    unfolding b_def by (rule get_cell_find)
  then have fnd0: "find (\<lambda>y. cell_eq y ?t) b = Some c"
    using nn by (cases "find (\<lambda>y. cell_eq y ?t) b") (simp_all add: c_def)
  have "find (\<lambda>y. cell_eq y ?t) (filter (\<lambda>x. \<not> in_eq x S) b) = find (\<lambda>y. cell_eq y ?t) b"
    using passes by (intro find_filter_pass) blast
  then have fnd: "find (\<lambda>y. cell_eq y ?t) (at_bucket (purge S m0) off) = Some c"
    using fnd0 atb by simp
  then show "find (\<lambda>y. cell_eq y ?t) (at_bucket (purge (fst r) m0) off) = Some c"
    by (simp add: r)
  have gc: "get_cell (purge S m0) off sz = c" using fnd by (simp add: get_cell_find)
  have "mk_cell a off sz (purge S m0, im) = Inr (get_cell (purge S m0) off sz, purge S m0, im)"
    using nn hc by (intro mk_cell_found) (simp_all add: gc c_def)
  then show "mk_cell a off sz (remove_cells (fst r) (snd r), im) = Inr (c, purge (fst r) m0, im)"
    by (simp add: r remove_cells_purge [OF wf] gc)
  have cin: "c \<in> set (at_bucket (purge S m0) off)"
    using cb passes [OF ceq] by (simp add: atb)
  have s1: "in_eq ?t (at_bucket (purge S m0) off)"
    using cin ceq by (auto simp: in_eq_def)
  have s2: "\<forall>x \<in> set (at_bucket (purge S m0) off). ?P x \<longrightarrow> cell_eq x ?t"
  proof (intro ballI impI)
    fix x
    assume "x \<in> set (at_bucket (purge S m0) off)" "?P x"
    then have "cell_eq x c" using w(4) by (simp add: atb)
    then show "cell_eq x ?t" using ceq by (rule cell_eq_trans)
  qed
  have s3: "(\<exists>x \<in> set (at_bucket (purge S m0) off). ?P x) \<longrightarrow>
      below (purge S m0) off = [] \<or> \<not> (\<exists>x \<in> set (hd (below (purge S m0) off)). ?P x)"
  proof
    assume "\<exists>x \<in> set (at_bucket (purge S m0) off). ?P x"
    then have "\<exists>x \<in> set b. ?P x" by (auto simp: atb)
    then show "below (purge S m0) off = [] \<or> \<not> (\<exists>x \<in> set (hd (below (purge S m0) off)). ?P x)"
      using w(5) by (simp add: below_purge)
  qed
  have s4: "above (purge S m0) off = [] \<or> \<not> (\<exists>x \<in> set (hd (above (purge S m0) off)). ?P x)"
    using w(6) by (simp add: above_purge)
  show "settled (purge (fst r) m0) off sz"
    unfolding settled_def r fst_conv using s1 s2 s3 s4 by blast
qed

lemma store_map_added:
  fixes m0 :: offset_map and a :: var and im :: index_map
  assumes wf: "wf_offset_map m0" and sc: "all_scalars m0"
    and nn: "is_null (get_cell m0 off sz)"
  defines "r \<equiv> get_overlap_cells off sz [] m0"
  defines "c' \<equiv> cell_of_scalar off
      \<lparr> v_name = KeyVar (fst (get_index a off sz im)),
        v_type = get_array_element_type (v_type a), v_bitwidth = sz \<rparr>"
  shows "list_all has_scalar (fst r)"
    and "\<exists>m2. mk_cell a off sz (remove_cells (fst r) (snd r), im)
              = Inr (c', m2, snd (get_index a off sz im))
          \<and> wf_offset_map m2 \<and> all_scalars m2 \<and> settled m2 off sz
          \<and> find (\<lambda>y. cell_eq y (cell_of_size off sz)) (at_bucket m2 off) = Some c'"
proof -
  let ?t = "cell_of_size off sz"
  let ?P = "\<lambda>x. overlap x off sz"
  have ot: "c_offset ?t = off" by (simp add: cell_of_size_def)
  from insert_cell_wf [OF wf, of False ?t, unfolded ot]
  obtain m1 where ins: "insert_cell ?t False m0 = Inr m1" and wf1: "wf_offset_map m1"
    and bel1: "below m1 off = below m0 off" and abv1: "above m1 off = above m0 off"
    and at1: "map_of m1 off \<noteq> None"
    and sub1: "set (at_bucket m1 off) \<subseteq> insert ?t (set (at_bucket m0 off))"
    and int1: "in_eq ?t (at_bucket m1 off)"
    and cells1: "cells_of m1 \<subseteq> insert ?t (cells_of m0)"
    by blast
  define b1 where "b1 = at_bucket m1 off"
  define S where "S = overlap_walks ?t off sz b1 (below m0 off) (above m0 off) []"
  have at: "map_of m1 off = Some b1" using at1 by (auto simp: b1_def at_bucket_def)
  have r: "r = (S, purge [?t] m1)"
    unfolding r_def S_def
    using get_overlap_cells_added [OF nn ins wf1 at, of "[]"]
    by (simp add: bel1 abv1 remove_cell_purge [OF wf1])
  note w = walks_settle [OF wf cell_eq_refl, where b = b1 and off = off and sz = sz, folded S_def]
  have hs: "\<forall>x \<in> cells_of m0. has_scalar x" using sc by (simp add: all_scalars_iff)
  have bc: "set b1 \<subseteq> insert ?t (cells_of m0)"
    using sub1 at_bucket_cells [of _ m0 off] by (auto simp: b1_def)
  have "z \<in> cells_of m0" if "z \<in> set S" for z
  proof -
    have "z \<noteq> ?t" using w(2) that by auto
    then show ?thesis using w(3) bc that by blast
  qed
  then show "list_all has_scalar (fst r)" using hs by (auto simp: r list_all_iff)
  define m1' where "m1' = purge (?t # S) m1"
  have rm: "remove_cells (fst r) (snd r) = m1'"
    by (simp add: r remove_cells_purge [OF wf_purge [OF wf1]] purge_purge m1'_def)
  have wf1': "wf_offset_map m1'" unfolding m1'_def by (rule wf_purge [OF wf1])
  have atb: "at_bucket m1' off = filter (\<lambda>x. \<not> in_eq x (?t # S)) b1"
    unfolding b1_def m1'_def by (rule at_bucket_purge [OF wf_distinct [OF wf1]])
  have noeq: "\<not> cell_eq y ?t" if "y \<in> set (at_bucket m1' off)" for y
  proof
    assume "cell_eq y ?t"
    then have "in_eq y (?t # S)" by (auto simp: in_eq_def intro: cell_eq_sym)
    then show False using that by (simp add: atb)
  qed
  have "find (\<lambda>y. cell_eq y ?t) (at_bucket m1' off) = None"
    using noeq by (simp add: find_None_iff)
  then have nn': "is_null (get_cell m1' off sz)" by (simp add: get_cell_find)
  from mk_cell_create [OF nn' wf1', of a im, folded c'_def]
  obtain m2 where mk: "mk_cell a off sz (m1', im) = Inr (c', m2, snd (get_index a off sz im))"
    and ins2: "insert_cell c' True m1' = Inr m2"
    by blast
  have oc: "c_offset c' = off" by (simp add: c'_def cell_of_scalar_def)
  have hc: "has_scalar c'" by (simp add: c'_def cell_of_scalar_def has_scalar_def)
  have ceq: "cell_eq c' ?t" by (simp add: c'_def cell_of_scalar_def cell_of_size_def cell_eq_def)
  from insert_cell_wf [OF wf1', of True c', unfolded oc ins2] hc
  have wf2: "wf_offset_map m2"
    and bel2: "below m2 off = below m1' off" and abv2: "above m2 off = above m1' off"
    and sub2: "set (at_bucket m2 off) \<subseteq> insert c' (set (at_bucket m1' off))"
    and fresh2: "\<not> in_eq c' (at_bucket m1' off) \<longrightarrow> c' \<in> set (at_bucket m2 off)"
    and cells2: "cells_of m2 \<subseteq> insert c' (cells_of m1')"
    by simp_all
  have "\<not> in_eq c' (at_bucket m1' off)"
  proof
    assume "in_eq c' (at_bucket m1' off)"
    then obtain y where y: "y \<in> set (at_bucket m1' off)" "cell_eq y c'" by (auto simp: in_eq_def)
    then have "cell_eq y ?t" using ceq cell_eq_trans by blast
    then show False using noeq y(1) by blast
  qed
  then have cin: "c' \<in> set (at_bucket m2 off)" using fresh2 by blast
  have uniq: "\<forall>y \<in> set (at_bucket m2 off). cell_eq y ?t \<longrightarrow> y = c'"
    using sub2 noeq by blast
  have fnd: "find (\<lambda>y. cell_eq y ?t) (at_bucket m2 off) = Some c'"
    using cin ceq uniq by (rule find_unique)
  have sc2: "all_scalars m2"
  proof -
    have "has_scalar x" if "x \<in> cells_of m2" for x
    proof (cases "x = c'")
      case True
      then show ?thesis using hc by simp
    next
      case False
      then have "x \<in> cells_of m1'" using cells2 that by blast
      then have x: "x \<in> cells_of m1" "\<not> in_eq x (?t # S)"
        using cells_of_purge_strong [of "?t # S" m1] by (auto simp: m1'_def)
      then have "x \<noteq> ?t" by (auto simp: in_eq_def)
      then have "x \<in> cells_of m0" using x(1) cells1 by blast
      then show ?thesis using hs by blast
    qed
    then show ?thesis by (simp add: all_scalars_iff)
  qed
  have skipb: "residue (?t # S) (below m0 off) = residue S (below m0 off)"
  proof (rule residue_skip, intro ballI)
    fix bk x
    assume "bk \<in> set (below m0 off)" "x \<in> set bk"
    then have "c_offset x < off" by (rule below_cells(2) [OF wf])
    then show "\<not> cell_eq ?t x" by (simp add: cell_eq_def cell_of_size_def)
  qed
  have skipa: "residue (?t # S) (above m0 off) = residue S (above m0 off)"
  proof (rule residue_skip, intro ballI)
    fix bk x
    assume "bk \<in> set (above m0 off)" "x \<in> set bk"
    then have "off < c_offset x" by (rule above_cells(2) [OF wf])
    then show "\<not> cell_eq ?t x" by (simp add: cell_eq_def cell_of_size_def)
  qed
  have belr: "below m2 off = residue S (below m0 off)"
    by (simp add: bel2 m1'_def below_purge bel1 skipb)
  have abvr: "above m2 off = residue S (above m0 off)"
    by (simp add: abv2 m1'_def above_purge abv1 skipa)
  have s1: "in_eq ?t (at_bucket m2 off)" using cin ceq by (auto simp: in_eq_def)
  have s2: "\<forall>x \<in> set (at_bucket m2 off). ?P x \<longrightarrow> cell_eq x ?t"
  proof (intro ballI impI)
    fix x
    assume x: "x \<in> set (at_bucket m2 off)" "?P x"
    show "cell_eq x ?t"
    proof (cases "x = c'")
      case True
      then show ?thesis using ceq by simp
    next
      case False
      then have "x \<in> set (at_bucket m1' off)" using sub2 x(1) by blast
      then have "x \<in> set b1" "\<not> in_eq x (?t # S)" by (simp_all add: atb)
      then have "x \<in> set b1" "\<not> in_eq x S" by (auto simp: in_eq_def)
      then show ?thesis using w(4) x(2) by blast
    qed
  qed
  have s3: "(\<exists>x \<in> set (at_bucket m2 off). ?P x) \<longrightarrow>
      below m2 off = [] \<or> \<not> (\<exists>x \<in> set (hd (below m2 off)). ?P x)"
  proof
    assume "\<exists>x \<in> set (at_bucket m2 off). ?P x"
    then obtain x where x: "x \<in> set (at_bucket m2 off)" "?P x" by blast
    then have xt: "cell_eq x ?t" using s2 by blast
    from int1 obtain y where y: "y \<in> set b1" "cell_eq y ?t" by (auto simp: in_eq_def b1_def)
    have "?P y" using x(2) overlap_cell_eq [OF xt] overlap_cell_eq [OF y(2)] by simp
    then have "\<exists>x \<in> set b1. ?P x" using y(1) by blast
    then show "below m2 off = [] \<or> \<not> (\<exists>x \<in> set (hd (below m2 off)). ?P x)"
      using w(5) by (simp add: belr)
  qed
  have s4: "above m2 off = [] \<or> \<not> (\<exists>x \<in> set (hd (above m2 off)). ?P x)"
    using w(6) by (simp add: abvr)
  have st: "settled m2 off sz"
    unfolding settled_def using s1 s2 s3 s4 by blast
  show "\<exists>m2. mk_cell a off sz (remove_cells (fst r) (snd r), im)
              = Inr (c', m2, snd (get_index a off sz im))
          \<and> wf_offset_map m2 \<and> all_scalars m2 \<and> settled m2 off sz
          \<and> find (\<lambda>y. cell_eq y (cell_of_size off sz)) (at_bucket m2 off) = Some c'"
    using mk wf2 sc2 st fnd unfolding rm by blast
qed

lemma load_map:
  fixes m2 :: offset_map and a :: var and im2 :: index_map
  assumes wf: "wf_offset_map m2" and st: "settled m2 off sz"
    and fnd: "find (\<lambda>y. cell_eq y (cell_of_size off sz)) (at_bucket m2 off) = Some c"
    and hc: "has_scalar c"
    and deg: "is_null (cell_of_size off sz) \<longrightarrow>
        c = cell_of_scalar off
              \<lparr> v_name = KeyVar (fst (get_index a off sz im2)),
                v_type = get_array_element_type (v_type a), v_bitwidth = sz \<rparr>"
  shows "fst (get_overlap_cells off sz [] m2) = []"
    and "\<exists>m3 im3. mk_cell a off sz (snd (get_overlap_cells off sz [] m2), im2) = Inr (c, m3, im3)"
proof -
  let ?t = "cell_of_size off sz"
  let ?P = "\<lambda>x. overlap x off sz"
  have cin: "c \<in> set (at_bucket m2 off)" and ceq: "cell_eq c ?t"
    using fnd by (auto simp: find_Some_iff)
  have gc: "get_cell m2 off sz = c" using fnd by (simp add: get_cell_find)
  note s = st [unfolded settled_def]
  have both: "fst (get_overlap_cells off sz [] m2) = []
      \<and> (\<exists>m3 im3. mk_cell a off sz (snd (get_overlap_cells off sz [] m2), im2) = Inr (c, m3, im3))"
  proof (cases "is_null ?t")
    case True
    then have nn: "is_null (get_cell m2 off sz)" by (rule get_cell_null_key)
    have ot: "c_offset ?t = off" by (simp add: cell_of_size_def)
    from insert_cell_wf [OF wf, of False ?t, unfolded ot]
    obtain m1 where ins: "insert_cell ?t False m2 = Inr m1" and wf1: "wf_offset_map m1"
      and bel1: "below m1 off = below m2 off" and abv1: "above m1 off = above m2 off"
      and at1: "map_of m1 off \<noteq> None"
      and sub1: "set (at_bucket m1 off) \<subseteq> insert ?t (set (at_bucket m2 off))"
      by blast
    define b1 where "b1 = at_bucket m1 off"
    have at: "map_of m1 off = Some b1" using at1 by (auto simp: b1_def at_bucket_def)
    have goc: "get_overlap_cells off sz [] m2
        = (overlap_walks ?t off sz b1 (below m2 off) (above m2 off) [], purge [?t] m1)"
      using get_overlap_cells_added [OF nn ins wf1 at, of "[]"]
      by (simp add: bel1 abv1 remove_cell_purge [OF wf1])
    have e1: "\<forall>x \<in> set b1. ?P x \<longrightarrow> cell_eq x ?t"
      using sub1 s unfolding b1_def by auto
    have e2: "(\<exists>x \<in> set b1. ?P x) \<longrightarrow>
        below m2 off = [] \<or> \<not> (\<exists>x \<in> set (hd (below m2 off)). ?P x)"
    proof
      assume "\<exists>x \<in> set b1. ?P x"
      then obtain x where x: "x \<in> set b1" "?P x" by blast
      then have xt: "cell_eq x ?t" using e1 by blast
      have "?P c" using x(2) overlap_cell_eq [OF xt] overlap_cell_eq [OF ceq] by simp
      then have "\<exists>x \<in> set (at_bucket m2 off). ?P x" using cin by blast
      then show "below m2 off = [] \<or> \<not> (\<exists>x \<in> set (hd (below m2 off)). ?P x)"
        using s by blast
    qed
    have e3: "above m2 off = [] \<or> \<not> (\<exists>x \<in> set (hd (above m2 off)). ?P x)"
      using s by blast
    have emp: "overlap_walks ?t off sz b1 (below m2 off) (above m2 off) [] = []"
      using e1 e2 e3 by (rule overlap_walks_empty)
    have nn': "is_null (get_cell (purge [?t] m1) off sz)" using True by (rule get_cell_null_key)
    from mk_cell_create [OF nn' wf_purge [OF wf1], of a im2] deg True
    obtain m3 where "mk_cell a off sz (purge [?t] m1, im2) = Inr (c, m3, snd (get_index a off sz im2))"
      by auto
    then show ?thesis using emp by (auto simp: goc)
  next
    case False
    then have nn: "\<not> is_null (get_cell m2 off sz)"
      using is_null_cell_eq [OF ceq] by (simp add: gc)
    have goc: "get_overlap_cells off sz [] m2
        = (overlap_walks c off sz (at_bucket m2 off) (below m2 off) (above m2 off) [], m2)"
      using get_overlap_cells_found [OF wf nn, of "[]"] by (simp add: gc)
    have e1: "\<forall>x \<in> set (at_bucket m2 off). ?P x \<longrightarrow> cell_eq x c"
    proof (intro ballI impI)
      fix x
      assume "x \<in> set (at_bucket m2 off)" "?P x"
      then have "cell_eq x ?t" using s by blast
      then show "cell_eq x c" using cell_eq_sym [OF ceq] by (rule cell_eq_trans)
    qed
    have e2: "(\<exists>x \<in> set (at_bucket m2 off). ?P x) \<longrightarrow>
        below m2 off = [] \<or> \<not> (\<exists>x \<in> set (hd (below m2 off)). ?P x)"
      using s by blast
    have e3: "above m2 off = [] \<or> \<not> (\<exists>x \<in> set (hd (above m2 off)). ?P x)"
      using s by blast
    have emp: "overlap_walks c off sz (at_bucket m2 off) (below m2 off) (above m2 off) [] = []"
      using e1 e2 e3 by (rule overlap_walks_empty)
    have "mk_cell a off sz (m2, im2) = Inr (get_cell m2 off sz, m2, im2)"
      using nn hc by (intro mk_cell_found) (simp_all add: gc)
    then show ?thesis using emp by (auto simp: goc gc)
  qed
  show "fst (get_overlap_cells off sz [] m2) = []" using both by blast
  show "\<exists>m3 im3. mk_cell a off sz (snd (get_overlap_cells off sz [] m2), im2) = Inr (c, m3, im3)"
    using both by blast
qed

lemma store_map:
  fixes m0 :: offset_map and a :: var and im :: index_map and off sz :: nat
  assumes wf: "wf_offset_map m0" and sc: "all_scalars m0"
  defines "r \<equiv> get_overlap_cells off sz [] m0"
  shows "\<exists>c m2 im2. list_all has_scalar (fst r)
      \<and> mk_cell a off sz (remove_cells (fst r) (snd r), im) = Inr (c, m2, im2)
      \<and> has_scalar c \<and> wf_offset_map m2 \<and> all_scalars m2
      \<and> get_cell m2 off sz = c
      \<and> fst (get_overlap_cells off sz [] m2) = []
      \<and> (\<exists>m3 im3. mk_cell a off sz (snd (get_overlap_cells off sz [] m2), im2) = Inr (c, m3, im3))"
proof (cases "is_null (get_cell m0 off sz)")
  case False
  note f1 = store_map_found(1) [OF wf sc False, folded r_def]
  note f2 = store_map_found(2) [OF wf sc False, where a = a and im = im, folded r_def]
  note f3 = store_map_found(3) [OF wf sc False]
  note f4 = store_map_found(4) [OF wf sc False, folded r_def]
  note f5 = store_map_found(5) [OF wf sc False, folded r_def]
  define c where "c = get_cell m0 off sz"
  define m2 where "m2 = purge (fst r) m0"
  have wf2: "wf_offset_map m2" unfolding m2_def by (rule wf_purge [OF wf])
  have "cells_of m2 \<subseteq> cells_of m0" unfolding m2_def by (rule cells_of_purge)
  then have sc2: "all_scalars m2" using sc by (auto simp: all_scalars_iff)
  have fnd: "find (\<lambda>y. cell_eq y (cell_of_size off sz)) (at_bucket m2 off) = Some c"
    using f5 by (simp add: m2_def c_def)
  have ceq: "cell_eq c (cell_of_size off sz)" using fnd by (auto simp: find_Some_iff)
  have nd: "\<not> is_null (cell_of_size off sz)"
    using False is_null_cell_eq [OF ceq] by (simp add: c_def)
  have hc: "has_scalar c" using f3 by (simp add: c_def)
  have st: "settled m2 off sz" using f4 by (simp add: m2_def)
  note l = load_map [OF wf2 st fnd hc, where a = a and ?im2.0 = im]
  have gc: "get_cell m2 off sz = c" using fnd by (simp add: get_cell_find)
  have mk: "mk_cell a off sz (remove_cells (fst r) (snd r), im) = Inr (c, m2, im)"
    using f2 by (simp add: m2_def c_def)
  show ?thesis
    using f1 mk hc wf2 sc2 gc l nd by blast
next
  case True
  define c where "c = cell_of_scalar off
      \<lparr> v_name = KeyVar (fst (get_index a off sz im)),
        v_type = get_array_element_type (v_type a), v_bitwidth = sz \<rparr>"
  define im2 where "im2 = snd (get_index a off sz im)"
  note f1 = store_map_added(1) [OF wf sc True, folded r_def]
  note f2 = store_map_added(2) [OF wf sc True, where a = a and im = im, folded r_def c_def im2_def]
  from f2 obtain m2 where mk: "mk_cell a off sz (remove_cells (fst r) (snd r), im) = Inr (c, m2, im2)"
    and wf2: "wf_offset_map m2" and sc2: "all_scalars m2" and st: "settled m2 off sz"
    and fnd: "find (\<lambda>y. cell_eq y (cell_of_size off sz)) (at_bucket m2 off) = Some c"
    by blast
  have hc: "has_scalar c" by (simp add: c_def cell_of_scalar_def has_scalar_def)
  have idx: "fst (get_index a off sz im2) = fst (get_index a off sz im)"
    unfolding im2_def by (simp add: get_index_idem)
  have deg: "is_null (cell_of_size off sz) \<longrightarrow>
        c = cell_of_scalar off
              \<lparr> v_name = KeyVar (fst (get_index a off sz im2)),
                v_type = get_array_element_type (v_type a), v_bitwidth = sz \<rparr>"
    by (simp add: idx c_def)
  note l = load_map [OF wf2 st fnd hc deg]
  have gc: "get_cell m2 off sz = c" using fnd by (simp add: get_cell_find)
  show ?thesis
    using f1 mk hc wf2 sc2 gc l by blast
qed

text \<open>
  C1. In the array-expansion domain, let the index \<open>i\<close> and \<open>elem_size\<close> evaluate to the
  singletons \<open>n\<close> and \<open>n_bytes\<close>, on a non-bottom state whose offset map for \<open>a\<close> is well
  formed and whose cells carry their scalars. Then \<open>array_store(a, elem_size, i, val, _)\<close>
  succeeds: it forgets the scalars of the overlapping cells, materialises the cell for
  \<open>(n, n_bytes)\<close> and assigns \<open>val\<close> to its scalar (a strong update). A following
  \<open>array_load(lhs, a, elem_size, i)\<close> on the resulting state, when that state passes the
  load's own guard (neither bottom nor top) and \<open>i\<close> and \<open>elem_size\<close> still evaluate to \<open>n\<close>
  and \<open>n_bytes\<close>, finds no overlapping cell, raises no warning and assigns that scalar to
  \<open>lhs\<close>: in the inner abstraction \<open>lhs\<close> equals the scalar that holds \<open>val\<close>.
\<close>

theorem store_then_load:
  fixes D :: "'d numdom" and s :: "'d ae_state"
  assumes wf: "wf_offset_map (ae_array_map s a)" and sc: "all_scalars (ae_array_map s a)"
    and nb: "\<not> ae_is_bottom D s"
    and i: "interval_singleton (to_interval D (ae_inv s) i) = Some n"
    and es: "interval_singleton (to_interval D (ae_inv s) elem_size) = Some n_bytes"
  shows "\<exists>s1 scalar d.
      array_store D a elem_size i val b s = Inr s1
    \<and> wf_offset_map (ae_array_map s1 a) \<and> all_scalars (ae_array_map s1 a)
    \<and> c_scalar (get_cell (ae_array_map s1 a) (number_to_offset n) (number_to_size n_bytes))
        = Some scalar
    \<and> forget_scalars D
          (fst (get_overlap_cells (number_to_offset n) (number_to_size n_bytes) []
                 (ae_array_map s a)))
          (ae_inv s) = Inr d
    \<and> ae_inv s1 = nd_assign D scalar val d
    \<and> (\<not> ae_is_bottom D s1 \<and> \<not> ae_is_top D s1
        \<and> interval_singleton (to_interval D (ae_inv s1) i) = Some n
        \<and> interval_singleton (to_interval D (ae_inv s1) elem_size) = Some n_bytes
       \<longrightarrow> (\<exists>s2. array_load D lhs a elem_size i s1 = Inr s2
             \<and> ae_inv s2 = nd_assign D lhs (exp_of_var scalar) (ae_inv s1)
             \<and> ae_warnings s2 = ae_warnings s))"
proof -
  define off where "off = number_to_offset n"
  define sz where "sz = number_to_size n_bytes"
  define m0 where "m0 = ae_array_map s a"
  define S where "S = fst (get_overlap_cells off sz [] m0)"
  define m' where "m' = snd (get_overlap_cells off sz [] m0)"
  from store_map [OF wf sc, where a = a and off = off and sz = sz and im = "ae_index_map s",
      folded m0_def, folded S_def m'_def]
  obtain c m2 im2 m3 im3 where hs: "list_all has_scalar S"
    and mk: "mk_cell a off sz (remove_cells S m', ae_index_map s) = Inr (c, m2, im2)"
    and hc: "has_scalar c" and wf2: "wf_offset_map m2" and sc2: "all_scalars m2"
    and gc: "get_cell m2 off sz = c"
    and emp: "fst (get_overlap_cells off sz [] m2) = []"
    and mk2: "mk_cell a off sz (snd (get_overlap_cells off sz [] m2), im2) = Inr (c, m3, im3)"
    by blast
  from hc obtain scalar where scalar: "c_scalar c = Some scalar"
    by (auto simp: has_scalar_def)
  from forget_scalars_ok [OF hs, of D "ae_inv s"] obtain d where d: "forget_scalars D S (ae_inv s) = Inr d"
    by blast
  define s1 where "s1 = s\<lparr> ae_inv := nd_assign D scalar val d,
      ae_array_map := (ae_array_map s)(a := m2), ae_index_map := im2 \<rparr>"
  have store: "array_store D a elem_size i val b s = Inr s1"
  proof (cases S)
    case Nil
    then have "d = ae_inv s" using d by simp
    then show ?thesis
      unfolding array_store_def
      using nb i es Nil mk
      by (simp add: Let_def off_def [symmetric] sz_def [symmetric] m0_def [symmetric]
          S_def [symmetric] m'_def [symmetric] scalar s1_def)
  next
    case (Cons x xs)
    then have "S \<noteq> []" by simp
    then show ?thesis
      unfolding array_store_def
      using nb i es d mk
      by (simp add: Let_def off_def [symmetric] sz_def [symmetric] m0_def [symmetric]
          S_def [symmetric] m'_def [symmetric] scalar s1_def)
  qed
  have a1: "ae_array_map s1 a = m2" and i1: "ae_index_map s1 = im2"
    and inv1: "ae_inv s1 = nd_assign D scalar val d" and w1: "ae_warnings s1 = ae_warnings s"
    by (simp_all add: s1_def)
  have load: "\<exists>s2. array_load D lhs a elem_size i s1 = Inr s2
             \<and> ae_inv s2 = nd_assign D lhs (exp_of_var scalar) (ae_inv s1)
             \<and> ae_warnings s2 = ae_warnings s"
    if "\<not> ae_is_bottom D s1" "\<not> ae_is_top D s1"
      "interval_singleton (to_interval D (ae_inv s1) i) = Some n"
      "interval_singleton (to_interval D (ae_inv s1) elem_size) = Some n_bytes"
    unfolding array_load_def
    using that
    by (simp add: Let_def off_def [symmetric] sz_def [symmetric] a1 i1 emp mk2 scalar w1)
  show ?thesis
    using store wf2 sc2 gc scalar d inv1 load
    unfolding off_def sz_def m0_def S_def a1 [symmetric]
    by blast
qed

lemma overlap_64_84: "overlap cell64 8 4" "overlap (cell_of_size 8 4) 8 4"
  by (simp_all add: overlap_def cell64_def cell_of_size_def cell_to_interval_def mk_interval_def
      Let_def bound_max_def bound_min_def interval_is_bottom_def)

lemma goc_cell64: "get_overlap_cells 8 4 [] [(6, [cell64])] = ([cell64], [(6, [cell64])])"
  by (simp add: get_overlap_cells_def get_cell_def pt_lookup_def is_null_def null_cell_def
      insert_cell_def Let_def scan_lb_def overlap_64_84 cell_eq_def push_unique_def
      scan_ub_def scan_rest_def remove_cell_def set_erase_def pt_remove_def)
    (simp add: cell_of_size_def cell64_def)

lemma mk_cell_84:
  "mk_cell a_var 8 4 ([], [((ProgVar 0, 6, 4), 0)])
     = Inr (cell84, [(8, [cell84])], [((ProgVar 0, 6, 4), 0), ((ProgVar 0, 8, 4), 1)])"
  by (simp add: mk_cell_def get_cell_def pt_lookup_def is_null_def null_cell_def Let_def
      get_array_element_type_def a_var_def get_index_def cell_of_scalar_def insert_cell_def
      has_scalar_def cell84_def k1_var_def)

lemma store_cell64:
  "array_store ienv_dom a_var (exp_of_number 4) (exp_of_number 8) (exp_of_number 7) True ae_cell64
     = Inr ae_cell84"
proof -
  have m: "ae_array_map ae_cell64 a_var = [(6, [cell64])]"
    and im: "ae_index_map ae_cell64 = [((ProgVar 0, 6, 4), 0)]"
    and inv: "ae_inv ae_cell64 = Some [(k0_var, Range (Fin 1) (Fin 1))]"
    by (simp_all add: ae_cell64_def)
  have nb: "\<not> ae_is_bottom ienv_dom ae_cell64"
    by (simp add: ae_is_bottom_def ienv_dom_def inv)
  have fs: "forget_scalars ienv_dom [cell64] (Some [(k0_var, Range (Fin 1) (Fin 1))]) = Inr (Some [])"
    by (simp add: cell64_def ienv_dom_def ienv_forget_def)
  have o6: "c_offset cell64 = 6" by (simp add: cell64_def)
  have rc: "remove_cells [cell64] [(6, [cell64])] = []"
    by (simp add: o6 remove_cells_def remove_cell_def pt_lookup_def set_erase_def pt_remove_def
        cell_eq_def)
  have asg: "nd_assign ienv_dom k1_var (exp_of_number 7) (Some [])
      = Some [(k1_var, Range (Fin 7) (Fin 7))]"
    by (simp add: ienv_dom_def ienv_assign_def ienv_eval_def exp_of_number_def
        interval_of_number_def ienv_set_def interval_top_def)
  have sc: "c_scalar cell84 = Some k1_var" by (simp add: cell84_def)
  show ?thesis
    unfolding array_store_def
    by (simp add: nb Let_def number_to_offset_def number_to_size_def m im inv goc_cell64 fs rc
        mk_cell_84 sc asg ae_cell84_def del: forget_scalars.simps)
qed

text \<open>
  The theorem at a concrete state: array \<open>a_var\<close> holds a 4-byte cell at offset 6; the store of
  7 into the 4 bytes at offset 8 removes that overlapping cell, and the load then gives
  \<open>lhs_var = [7, 7]\<close>.
\<close>

theorem store_then_load_witness:
  "wf_offset_map (ae_array_map ae_cell64 a_var) \<and> all_scalars (ae_array_map ae_cell64 a_var)
   \<and> \<not> ae_is_bottom ienv_dom ae_cell64
   \<and> interval_singleton (to_interval ienv_dom (ae_inv ae_cell64) (exp_of_number 8)) = Some 8
   \<and> interval_singleton (to_interval ienv_dom (ae_inv ae_cell64) (exp_of_number 4)) = Some 4
   \<and> array_store ienv_dom a_var (exp_of_number 4) (exp_of_number 8) (exp_of_number 7) True
         ae_cell64 = Inr ae_cell84
   \<and> \<not> ae_is_bottom ienv_dom ae_cell84 \<and> \<not> ae_is_top ienv_dom ae_cell84
   \<and> interval_singleton (to_interval ienv_dom (ae_inv ae_cell84) (exp_of_number 8)) = Some 8
   \<and> interval_singleton (to_interval ienv_dom (ae_inv ae_cell84) (exp_of_number 4)) = Some 4
   \<and> (\<exists>s2. array_load ienv_dom lhs_var a_var (exp_of_number 4) (exp_of_number 8) ae_cell84
               = Inr s2
          \<and> nd_get ienv_dom (ae_inv s2) lhs_var = Range (Fin 7) (Fin 7))"
proof -
  have m: "ae_array_map ae_cell64 a_var = [(6, [cell64])]" by (simp add: ae_cell64_def)
  have wf: "wf_offset_map (ae_array_map ae_cell64 a_var)"
    by (simp add: m wf_offset_map_def wf_bucket_def cell64_def)
  have sc: "all_scalars (ae_array_map ae_cell64 a_var)"
    by (simp add: m all_scalars_def has_scalar_def cell64_def)
  have nb: "\<not> ae_is_bottom ienv_dom ae_cell64"
    by (simp add: ae_is_bottom_def ienv_dom_def ae_cell64_def)
  have i8: "interval_singleton (to_interval ienv_dom (ae_inv ae_cell64) (exp_of_number 8)) = Some 8"
    and e4: "interval_singleton (to_interval ienv_dom (ae_inv ae_cell64) (exp_of_number 4)) = Some 4"
    by simp_all
  have inv84: "ae_inv ae_cell84 = Some [(k1_var, Range (Fin 7) (Fin 7))]"
    and m84: "ae_array_map ae_cell84 a_var = [(8, [cell84])]"
    by (simp_all add: ae_cell84_def)
  have g: "\<not> ae_is_bottom ienv_dom ae_cell84" "\<not> ae_is_top ienv_dom ae_cell84"
    "interval_singleton (to_interval ienv_dom (ae_inv ae_cell84) (exp_of_number 8)) = Some 8"
    "interval_singleton (to_interval ienv_dom (ae_inv ae_cell84) (exp_of_number 4)) = Some 4"
    by (simp_all add: ae_is_bottom_def ae_is_top_def ienv_dom_def inv84)
  from store_then_load [OF wf sc nb i8 e4, where val = "exp_of_number 7" and b = True
      and lhs = lhs_var]
  obtain s1 scalar where st: "array_store ienv_dom a_var (exp_of_number 4) (exp_of_number 8)
        (exp_of_number 7) True ae_cell64 = Inr s1"
    and gcs: "c_scalar (get_cell (ae_array_map s1 a_var) (number_to_offset 8) (number_to_size 4))
        = Some scalar"
    and ld: "\<not> ae_is_bottom ienv_dom s1 \<and> \<not> ae_is_top ienv_dom s1
        \<and> interval_singleton (to_interval ienv_dom (ae_inv s1) (exp_of_number 8)) = Some 8
        \<and> interval_singleton (to_interval ienv_dom (ae_inv s1) (exp_of_number 4)) = Some 4
       \<longrightarrow> (\<exists>s2. array_load ienv_dom lhs_var a_var (exp_of_number 4) (exp_of_number 8) s1 = Inr s2
             \<and> ae_inv s2 = nd_assign ienv_dom lhs_var (exp_of_var scalar) (ae_inv s1)
             \<and> ae_warnings s2 = ae_warnings ae_cell64)"
    by blast
  have s1: "s1 = ae_cell84" using st by (simp add: store_cell64)
  have k: "scalar = k1_var"
    using gcs
    by (simp add: s1 m84 number_to_offset_def number_to_size_def get_cell_def pt_lookup_def
        set_find_def cell_eq_def cell_of_size_def cell84_def)
  from ld g obtain s2 where l: "array_load ienv_dom lhs_var a_var (exp_of_number 4) (exp_of_number 8)
        ae_cell84 = Inr s2"
    and a: "ae_inv s2 = nd_assign ienv_dom lhs_var (exp_of_var k1_var) (ae_inv ae_cell84)"
    unfolding s1 k by blast
  have v: "nd_get ienv_dom (ae_inv s2) lhs_var = Range (Fin 7) (Fin 7)"
    unfolding a inv84
    by (simp add: ienv_dom_def ienv_assign_def ienv_eval_def exp_of_var_def ienv_get_def
        ienv_set_def interval_of_number_def interval_top_def Let_def bound_min_def bound_max_def
        k1_var_def lhs_var_def)
  show ?thesis
    using wf sc nb i8 e4 store_cell64 g l v by blast
qed

section \<open>Properties of normalize\<close>



















lemma graph_of_simps:
  "g_edge (graph_of es n) u v = map_of es (u, v)"
  "g_is_free (graph_of es n) = replicate n False"
  "g_lookup (graph_of es n) u v = map_of es (u, v)"
  "g_elem (graph_of es n) u v = (map_of es (u, v) \<noteq> None)"
  "g_edge_val (graph_of es n) u v = the (map_of es (u, v))"
  "g_verts (graph_of es n) = [0 ..< n]"
  "g_succs (graph_of es n) u = filter (\<lambda>v. map_of es (u, v) \<noteq> None) [0 ..< n]"
  by (simp_all add: graph_of_def g_lookup_def g_elem_def g_edge_val_def g_verts_def g_succs_def
      filter_id_conv)

lemma graph_of_add: "g_add_edge (graph_of es n) u w v = graph_of (((u, v), w) # es) n"
  by (auto simp: graph_of_def g_add_edge_def fun_eq_iff)

lemma graph_of_update:
  "g_update_edge (graph_of es n) u w v Wt_min
     = graph_of (((u, v), (case map_of es (u, v) of Some old \<Rightarrow> min old w | None \<Rightarrow> w)) # es) n"
  by (simp add: g_update_edge_def graph_of_simps graph_of_add Wt_min_def split: option.splits)

lemma normalize_step_graph_of:
  "normalize_step ex_ops v w (s\<lparr> graph := graph_of es n \<rparr>) =
     (if v div 2 = w div 2 then s\<lparr> graph := graph_of es n \<rparr>
      else (case map_of es (mirror_edge v w) of
              Some mirror \<Rightarrow>
                s\<lparr> graph := graph_of
                     (((v, w), (case map_of ((mirror_edge v w, min mirror (the (map_of es (v, w)))) # es) (v, w) of
                                  Some old \<Rightarrow> min old (min mirror (the (map_of es (v, w))))
                                | None \<Rightarrow> min mirror (the (map_of es (v, w)))))
                      # (mirror_edge v w, min mirror (the (map_of es (v, w)))) # es) n \<rparr>
            | None \<Rightarrow> s\<lparr> graph := graph_of ((mirror_edge v w, the (map_of es (v, w))) # es) n \<rparr>))"
  by (cases "mirror_edge v w")
    (auto simp: normalize_step_def Let_def graph_of_simps graph_of_add graph_of_update
      repair_potential_def ex_ops_def min_def split: option.splits)




lemma chain_johnson:
  "restabilize_delta ex_ops SimpleParams
     (chain\<lparr> graph := graph_of [((0, 2), 1), ((2, 4), 1), ((3, 1), 1), ((5, 3), 1)] 6 \<rparr>)
     = [((0, 4), 2), ((5, 1), 2)]"
  by (simp add: restabilize_delta_def SimpleParams_def ex_ops_def chain_def graph_of_simps
      two_step_def upt_rec)






end
